theory Spec2Isabelle
  imports Main "HOL-Library.Word"
begin

unbundle bit_operations_syntax

section \<open>Data model\<close>

text \<open>
  Go's \<open>[]byte\<close> is a list of 8-bit words, Go's \<open>string\<close> is a \<open>string\<close>.
  The conversions \<open>[]byte(s)\<close> and \<open>string(b)\<close> copy the bytes unchanged.
\<close>

type_synonym bytes = "8 word list"

definition bytes_of :: "string \<Rightarrow> bytes" where
  "bytes_of s = map (\<lambda>c. word_of_nat (of_char c)) s"

definition string_of :: "bytes \<Rightarrow> string" where
  "string_of b = map (\<lambda>w. char_of (unat w)) b"

text \<open>
  Go errors. \<open>NotFoundError\<close> is any error whose \<open>NotFound()\<close> method answers true;
  \<open>External\<close> is any other error raised outside this package (keystore backend, Vault
  client, HTTP, JSON, OpenPGP, base64). The other constructors are the package's own
  calls of \<open>errors.New\<close>, \<open>errors.Errorf\<close>, \<open>fmt.Errorf\<close>, \<open>errors.Wrap\<close> and
  \<open>errors.Wrapf\<close>: the format string and its arguments are kept apart, the wrapped
  error is kept; \<open>fmt_ErrorfW\<close> is \<open>fmt.Errorf\<close> with a final \<open>%w\<close> verb. \<open>PanicIndex\<close> is the runtime
  panic "index out of range".
\<close>

datatype error =
    NotFoundError
  | External string
  | errors_New string
  | errors_Errorf string "string list"
  | fmt_Errorf string "string list"
  | fmt_ErrorfW string "string list" error
  | errors_Wrap error string
  | errors_Wrapf error string "string list"
  | PanicIndex

section \<open>XOR codec\<close>

text \<open>
  \<open>XORBytes\<close>: the length check, then \<open>buf[i] = a[i] ^ b[i]\<close> for every index of \<open>a\<close>.
  The two \<open>%d\<close> arguments of the message are the lengths.
\<close>

fun show_digit :: "nat \<Rightarrow> char" where
  "show_digit n = char_of (48 + n)"

function show_nat :: "nat \<Rightarrow> string" where
  "show_nat n = (if n < 10 then [show_digit n] else show_nat (n div 10) @ [show_digit (n mod 10)])"
  by pat_completeness auto
termination
  by (relation "measure id") auto

declare show_nat.simps [simp del]

definition XORBytes :: "bytes \<Rightarrow> bytes \<Rightarrow> error + bytes" where
  "XORBytes a b =
     (if length a \<noteq> length b
      then Inl (errors_Errorf ''length of byte slices is not equivalent: %d != %d''
                  [show_nat (length a), show_nat (length b)])
      else Inr (map (\<lambda>i. (a ! i) XOR (b ! i)) [0 ..< length a]))"

text \<open>
  \<open>XORBase64\<close>. The decoder \<open>base64.StdEncoding.DecodeString\<close> belongs to Go's standard
  library; it is the parameter \<open>dec\<close>.
\<close>

definition XORBase64 :: "(string \<Rightarrow> error + bytes) \<Rightarrow> string \<Rightarrow> string \<Rightarrow> error + bytes" where
  "XORBase64 dec a b =
     (case dec a of
        Inl err \<Rightarrow> Inl (errors_New ''error decoding first base64 value'')
      | Inr aBytes \<Rightarrow>
          if length aBytes = 0 then Inl (errors_Errorf ''decoded first base64 value is nil or empty'' [])
          else (case dec b of
                  Inl err \<Rightarrow> Inl (errors_New ''error decoding second base64 value'')
                | Inr bBytes \<Rightarrow>
                    if length bBytes = 0
                    then Inl (errors_Errorf ''decoded second base64 value is nil or empty'' [])
                    else XORBytes aBytes bBytes))"

text \<open>
  A fragment of the standard base64 decoder, enough for the examples below:
  the decodings of four well-formed strings, the empty string, and an error elsewhere.
\<close>

definition dec_tab :: "string \<Rightarrow> error + bytes" where
  "dec_tab s =
     (if s = [] then Inr []
      else if s = ''QQ=='' then Inr [65]
      else if s = ''Qg=='' then Inr [66]
      else if s = ''AQI='' then Inr [1, 2]
      else if s = ''AwQ='' then Inr [3, 4]
      else Inl (External ''illegal base64 data''))"

section \<open>Key names\<close>

text \<open>
  \<open>keyUnsealForID\<close> and \<open>keyRecoveryForID\<close> print a prefix and the index in decimal
  (\<open>fmt.Sprint\<close> puts no space after a string operand). Every index in this package
  is a loop counter starting at 0, hence a \<open>nat\<close>.
\<close>

definition keyRootToken :: string where
  "keyRootToken = ''vault-root''"

definition keyTestField :: string where
  "keyTestField = ''vault-test''"

definition keyUnsealForID :: "nat \<Rightarrow> string" where
  "keyUnsealForID i = ''vault-unseal-'' @ show_nat i"

definition keyRecoveryForID :: "nat \<Rightarrow> string" where
  "keyRecoveryForID i = ''vault-recovery-'' @ show_nat i"

text \<open>The single quote, for format strings that end in one.\<close>

definition sq :: string where
  "sq = [CHR 0x27]"

section \<open>The keystore\<close>

text \<open>
  \<open>KVService\<close> is an interface; its only implementation in this repository is
  \<open>mockKVService\<close> of the test file: \<open>Set\<close> overwrites the entry, \<open>Get\<close> of an absent
  key returns an error whose \<open>NotFound()\<close> is true. The model is that map, together with
  two fault tables naming the keys on which the backend fails and the error it returns,
  so that the error paths of the callers can be reached. A faulty \<open>Set\<close> stores nothing.
\<close>

record KVService =
  store :: "string \<rightharpoonup> bytes"
  get_fault :: "string \<rightharpoonup> error"
  set_fault :: "string \<rightharpoonup> error"

definition kv_Get :: "KVService \<Rightarrow> string \<Rightarrow> error + bytes" where
  "kv_Get k key =
     (case get_fault k key of
        Some e \<Rightarrow> Inl e
      | None \<Rightarrow> (case store k key of Some val \<Rightarrow> Inr val | None \<Rightarrow> Inl NotFoundError))"

definition kv_Set :: "KVService \<Rightarrow> string \<Rightarrow> bytes \<Rightarrow> error option \<times> KVService" where
  "kv_Set k key val =
     (case set_fault k key of
        Some e \<Rightarrow> (Some e, k)
      | None \<Rightarrow> (None, k\<lparr>store := (store k)(key \<mapsto> val)\<rparr>))"

text \<open>
  \<open>isNotFoundError\<close>: \<open>errors.As\<close> walks the chain of wrapped errors and asks the first
  one that has a \<open>NotFound()\<close> method. It is applied to an \<open>error option\<close> where the
  source applies it to a possibly nil error.
\<close>

fun notFoundChain :: "error \<Rightarrow> bool" where
  "notFoundChain NotFoundError = True"
| "notFoundChain (errors_Wrap e m) = notFoundChain e"
| "notFoundChain (errors_Wrapf e m as) = notFoundChain e"
| "notFoundChain (fmt_ErrorfW m as e) = notFoundChain e"
| "notFoundChain (External m) = False"
| "notFoundChain (errors_New m) = False"
| "notFoundChain (errors_Errorf m as) = False"
| "notFoundChain (fmt_Errorf m as) = False"
| "notFoundChain PanicIndex = False"

fun isNotFoundError :: "error option \<Rightarrow> bool" where
  "isNotFoundError None = False"
| "isNotFoundError (Some e) = notFoundChain e"

section \<open>The Vault client\<close>

text \<open>
  The request and response structs of \<open>github.com/hashicorp/vault/api\<close>, with the
  fields this package reads or writes. Field names that occur in two structs carry the
  struct's initials.
\<close>

record Config =
  SecretShares :: int
  SecretThreshold :: int
  InitRootToken :: string
  StoreRootToken :: bool
  PreFlightChecks :: bool

record SealStatusResponse =
  Sealed :: bool
  Progress :: int
  RecoverySeal :: bool

record InitRequest =
  ir_SecretShares :: int
  ir_SecretThreshold :: int
  ir_RecoveryShares :: int
  ir_RecoveryThreshold :: int

record InitResponse =
  Keys :: "string list"
  RecoveryKeys :: "string list"
  RootToken :: string

record RekeyStatusResponse =
  rs_Nonce :: string
  rs_Started :: bool

record RekeyInitRequest =
  ri_SecretShares :: int
  ri_SecretThreshold :: int
  ri_PGPKeys :: "string list"

record RekeyUpdateResponse =
  ru_Complete :: bool
  KeysB64 :: "string list"

record GenerateRootStatusResponse =
  gr_Nonce :: string
  gr_Complete :: bool
  EncodedRootToken :: string
  OTP :: string
  OTPLength :: int
  Required :: int

record TokenCreateRequest =
  ID :: string
  Policies :: "string list"
  DisplayName :: string
  NoParent :: bool

text \<open>
  The Vault server and the network are a state \<open>'w\<close> that every call of the client may
  read and change; \<open>SysAPI\<close> gives, for each client method this package calls, the
  answer and the next state. A call that returns a nil error returns a response.
\<close>

record 'w SysAPI =
  api_InitStatus :: "'w \<Rightarrow> (error + bool) \<times> 'w"
  api_SealStatus :: "'w \<Rightarrow> (error + SealStatusResponse) \<times> 'w"
  api_Init :: "InitRequest \<Rightarrow> 'w \<Rightarrow> (error + InitResponse) \<times> 'w"
  api_Unseal :: "string \<Rightarrow> 'w \<Rightarrow> (error + SealStatusResponse) \<times> 'w"
  api_RekeyStatus :: "'w \<Rightarrow> (error + RekeyStatusResponse) \<times> 'w"
  api_RekeyInit :: "RekeyInitRequest \<Rightarrow> 'w \<Rightarrow> (error + RekeyStatusResponse) \<times> 'w"
  api_RekeyUpdate :: "string \<Rightarrow> string \<Rightarrow> 'w \<Rightarrow> (error + RekeyUpdateResponse) \<times> 'w"
  api_RekeyCancel :: "'w \<Rightarrow> error option \<times> 'w"
  api_GenerateRootCancel :: "'w \<Rightarrow> error option \<times> 'w"
  api_GenerateRootInit :: "string \<Rightarrow> string \<Rightarrow> 'w \<Rightarrow> (error + GenerateRootStatusResponse) \<times> 'w"
  api_GenerateRootUpdate :: "string \<Rightarrow> string \<Rightarrow> 'w \<Rightarrow> (error + GenerateRootStatusResponse) \<times> 'w"
  api_CreateOrphan :: "TokenCreateRequest \<Rightarrow> 'w \<Rightarrow> error option \<times> 'w"
  api_RevokeSelf :: "string \<Rightarrow> 'w \<Rightarrow> error option \<times> 'w"

text \<open>What the package did to the outside, in order, each call with its answer.\<close>

datatype event =
    KVGet string "error + bytes"
  | KVSet string bytes "error option"
  | SysInitStatus "error + bool"
  | SysSealStatus "error + SealStatusResponse"
  | SysInit InitRequest "error + InitResponse"
  | SysUnseal string "error + SealStatusResponse"
  | SysRekeyStatus "error + RekeyStatusResponse"
  | SysRekeyInit RekeyInitRequest "error + RekeyStatusResponse"
  | SysRekeyUpdate string string "error + RekeyUpdateResponse"
  | SysRekeyCancel "error option"
  | SysGenerateRootCancel "error option"
  | SysGenerateRootInit string string "error + GenerateRootStatusResponse"
  | SysGenerateRootUpdate string string "error + GenerateRootStatusResponse"
  | TokenCreateOrphan TokenCreateRequest "error option"
  | TokenRevokeSelf string "error option"
  | SetToken string
  | Sleep
  | OsRemove string

text \<open>
  The struct \<open>vault\<close>: the keystore, the client (its token and the world behind it), the
  configuration, the external configuration (of a type \<open>'c\<close> this file does not look
  into) and the rotate cache; and the trace of events so far.
\<close>

record ('w, 'c) vault =
  keyStore :: KVService
  cl_token :: string
  cl_world :: 'w
  config :: Config
  externalConfig :: 'c
  rotateCache :: "string \<rightharpoonup> bool"
  trace :: "event list"

definition keyStore_Get :: "string \<Rightarrow> ('w, 'c) vault \<Rightarrow> (error + bytes) \<times> ('w, 'c) vault" where
  "keyStore_Get key v =
     (let r = kv_Get (keyStore v) key in (r, v\<lparr>trace := trace v @ [KVGet key r]\<rparr>))"

definition keyStore_Set :: "string \<Rightarrow> bytes \<Rightarrow> ('w, 'c) vault \<Rightarrow> error option \<times> ('w, 'c) vault" where
  "keyStore_Set key val v =
     (case kv_Set (keyStore v) key val of
        (r, k) \<Rightarrow> (r, v\<lparr>keyStore := k, trace := trace v @ [KVSet key val r]\<rparr>))"

definition call :: "('w \<Rightarrow> 'r \<times> 'w) \<Rightarrow> ('r \<Rightarrow> event) \<Rightarrow> ('w, 'c) vault \<Rightarrow> 'r \<times> ('w, 'c) vault" where
  "call f ev v =
     (case f (cl_world v) of
        (r, w) \<Rightarrow> (r, v\<lparr>cl_world := w, trace := trace v @ [ev r]\<rparr>))"

definition cl_SetToken :: "string \<Rightarrow> ('w, 'c) vault \<Rightarrow> ('w, 'c) vault" where
  "cl_SetToken t v = v\<lparr>cl_token := t, trace := trace v @ [SetToken t]\<rparr>"

section \<open>Keystore helpers\<close>

text \<open>
  \<open>kvTester.Test\<close>: a \<open>Get\<close>; an error that is not a not-found error is returned;
  in every other case the \<open>Set\<close> follows.
\<close>

definition kvTester_Test :: "string \<Rightarrow> ('w, 'c) vault \<Rightarrow> error option \<times> ('w, 'c) vault" where
  "kvTester_Test key v =
     (case keyStore_Get key v of
        (Inl err, v1) \<Rightarrow>
          if \<not> isNotFoundError (Some err) then (Some err, v1)
          else keyStore_Set key (bytes_of key) v1
      | (Inr val, v1) \<Rightarrow> keyStore_Set key (bytes_of key) v1)"

text \<open>\<open>keyStoreNotFound\<close> returns the pair \<open>(notFound, err)\<close>.\<close>

definition keyStoreNotFound :: "string \<Rightarrow> ('w, 'c) vault \<Rightarrow> (bool \<times> error option) \<times> ('w, 'c) vault" where
  "keyStoreNotFound key v =
     (case keyStore_Get key v of
        (r, v1) \<Rightarrow>
          (let err = (case r of Inl e \<Rightarrow> Some e | Inr val \<Rightarrow> None)
           in if isNotFoundError err then ((True, None), v1) else ((False, err), v1)))"

definition keyPGPSet :: "(string \<Rightarrow> error + bytes) \<Rightarrow> string \<Rightarrow> bytes \<Rightarrow> ('w, 'c) vault
    \<Rightarrow> error option \<times> ('w, 'c) vault" where
  "keyPGPSet dec key val v =
     (case dec (string_of val) of
        Inl err \<Rightarrow> (Some (errors_Wrap err ''error setting data''), v)
      | Inr pgpText \<Rightarrow> keyStore_Set key pgpText v)"

definition keyStoreSet :: "string \<Rightarrow> bytes \<Rightarrow> ('w, 'c) vault \<Rightarrow> error option \<times> ('w, 'c) vault" where
  "keyStoreSet key val v =
     (case keyStoreNotFound key v of
        ((notFound, err), v1) \<Rightarrow>
          if notFound then keyStore_Set key val v1
          else (case err of
                  None \<Rightarrow> (Some (errors_Errorf (''error setting key '%s': it already exists'') [key]), v1)
                | Some e \<Rightarrow> (Some (errors_Wrapf e (''error setting key '%s'' @ sq) [key]), v1)))"

section \<open>Unseal\<close>

text \<open>
  \<open>Sealed\<close> returns the pair \<open>(sealed, err)\<close>: \<open>false\<close> with the wrapped error when
  the status call fails.
\<close>

definition Sealed_status :: "'w SysAPI \<Rightarrow> ('w, 'c) vault \<Rightarrow> (bool \<times> error option) \<times> ('w, 'c) vault" where
  "Sealed_status api v =
     (case call (api_SealStatus api) SysSealStatus v of
        (Inl err, v1) \<Rightarrow> ((False, Some (errors_Wrap err ''error checking status'')), v1)
      | (Inr resp, v1) \<Rightarrow> ((Sealed resp, None), v1))"

text \<open>
  \<open>Unseal\<close>: the loop \<open>for i := 0; ; i++\<close> has no bound, so the model takes fuel, one
  unit for each iteration, and \<open>None\<close> says that the fuel ran out before the loop
  returned. The deferred \<open>runtime.GC()\<close> has no effect on the state modelled here.
\<close>

primrec Unseal_loop :: "'w SysAPI \<Rightarrow> nat \<Rightarrow> nat \<Rightarrow> ('w, 'c) vault
    \<Rightarrow> (error option \<times> ('w, 'c) vault) option" where
  "Unseal_loop api 0 i v = None"
| "Unseal_loop api (Suc n) i v =
     (let keyID = keyUnsealForID i in
      case keyStore_Get keyID v of
        (Inl err, v1) \<Rightarrow> Some (Some (errors_Wrapf err (''unable to get key '%s'' @ sq) [keyID]), v1)
      | (Inr k, v1) \<Rightarrow>
          (case call (api_Unseal api (string_of k)) (SysUnseal (string_of k)) v1 of
             (Inl err, v2) \<Rightarrow> Some (Some (errors_Wrap err ''fail to send unseal request to vault''), v2)
           | (Inr resp, v2) \<Rightarrow>
               if \<not> Sealed resp then Some (None, v2)
               else if Progress resp = 0
               then Some (Some (errors_New ''failed to unseal vault, are you using the right unseal keys?''), v2)
               else Unseal_loop api n (i + 1) v2))"

definition Unseal :: "'w SysAPI \<Rightarrow> nat \<Rightarrow> ('w, 'c) vault \<Rightarrow> (error option \<times> ('w, 'c) vault) option" where
  "Unseal api fuel v = Unseal_loop api fuel 0 v"

section \<open>Init\<close>

text \<open>
  The loop "test every key" of \<open>Init\<close>. The first branch asks for \<open>notFound\<close> together
  with an error, the second for neither; every other answer of \<open>keyStoreNotFound\<close>
  goes on to the next key.
\<close>

primrec Init_test_keys :: "string list \<Rightarrow> ('w, 'c) vault \<Rightarrow> error option \<times> ('w, 'c) vault" where
  "Init_test_keys [] v = (None, v)"
| "Init_test_keys (key # keys) v =
     (case keyStoreNotFound key v of
        ((notFound, err), v1) \<Rightarrow>
          (case (notFound, err) of
             (True, Some e) \<Rightarrow>
               (Some (errors_Wrapf e ''error before init: checking key '%s' failed'' [key]), v1)
           | (False, None) \<Rightarrow>
               (Some (errors_Errorf ''error before init: value for key '%s' already exists'' [key]), v1)
           | _ \<Rightarrow> Init_test_keys keys v1))"

text \<open>
  The two loops \<open>for i, k := range resp.Keys\<close> and \<open>for i, k := range resp.RecoveryKeys\<close>:
  they differ in the key name and in the message, which are the parameters.
\<close>

primrec Init_store :: "(nat \<Rightarrow> string) \<Rightarrow> string \<Rightarrow> string list \<Rightarrow> nat \<Rightarrow> ('w, 'c) vault
    \<Rightarrow> error option \<times> ('w, 'c) vault" where
  "Init_store keyFor msg [] i v = (None, v)"
| "Init_store keyFor msg (k # ks) i v =
     (let keyID = keyFor i in
      case keyStoreSet keyID (bytes_of k) v of
        (Some err, v1) \<Rightarrow> (Some (errors_Wrapf err msg [keyID]), v1)
      | (None, v1) \<Rightarrow> Init_store keyFor msg ks (i + 1) v1)"

text \<open>
  The loop that waits for the unseal: it leaves when \<open>Sealed()\<close> answers \<open>false\<close>, which
  is also its answer when the status call fails; otherwise it sleeps and asks again. It
  has no bound, so it takes fuel.
\<close>

primrec Init_wait :: "'w SysAPI \<Rightarrow> nat \<Rightarrow> ('w, 'c) vault \<Rightarrow> ('w, 'c) vault option" where
  "Init_wait api 0 v = None"
| "Init_wait api (Suc n) v =
     (case Sealed_status api v of
        ((sealed, err), v1) \<Rightarrow>
          if \<not> sealed then Some v1
          else Init_wait api n (v1\<lparr>trace := trace v1 @ [Sleep]\<rparr>))"

text \<open>
  The block \<open>if v.config.InitRootToken != ""\<close>: it returns the error, or the new value
  of the local variable \<open>rootToken\<close>.
\<close>

definition Init_setupRootToken :: "'w SysAPI \<Rightarrow> nat \<Rightarrow> InitResponse \<Rightarrow> ('w, 'c) vault
    \<Rightarrow> ((error + string) \<times> ('w, 'c) vault) option" where
  "Init_setupRootToken api fuel resp v =
     (case Init_wait api fuel v of
        None \<Rightarrow> None
      | Some v1 \<Rightarrow>
          (let v2 = cl_SetToken (RootToken resp) v1;
               req = \<lparr>ID = InitRootToken (config v), Policies = [''root''],
                      DisplayName = ''root-token'', NoParent = True\<rparr>
           in case call (api_CreateOrphan api req) (TokenCreateOrphan req) v2 of
                (Some err, v3) \<Rightarrow>
                  Some (Inl (errors_Wrapf err
                    (''unable to setup requested root token, (temporary root token: '%s')'')
                    [RootToken resp]), v3)
              | (None, v3) \<Rightarrow>
                  (case call (api_RevokeSelf api (RootToken resp)) (TokenRevokeSelf (RootToken resp)) v3 of
                     (Some err, v4) \<Rightarrow>
                       Some (Inl (errors_Wrap err ''unable to revoke temporary root token''), v4)
                   | (None, v4) \<Rightarrow> Some (Inr (InitRootToken (config v)), v4))))"

text \<open>
  The root-token handling of \<open>Init\<close>, from \<open>rootToken := resp.RootToken\<close> to the end.
  The warning of the last branch is a log line and leaves no event.
\<close>

definition Init_rootToken :: "'w SysAPI \<Rightarrow> nat \<Rightarrow> InitResponse \<Rightarrow> ('w, 'c) vault
    \<Rightarrow> (error option \<times> ('w, 'c) vault) option" where
  "Init_rootToken api fuel resp v =
     (case (if InitRootToken (config v) \<noteq> []
            then Init_setupRootToken api fuel resp v
            else Some (Inr (RootToken resp), v)) of
        None \<Rightarrow> None
      | Some (Inl err, v1) \<Rightarrow> Some (Some err, v1)
      | Some (Inr rootToken, v1) \<Rightarrow>
          if StoreRootToken (config v)
          then (case keyStoreSet keyRootToken (bytes_of (RootToken resp)) v1 of
                  (Some err, v2) \<Rightarrow>
                    Some (Some (errors_Wrapf err (''error storing root token '%s' in key'%s'' @ sq)
                      [rootToken, keyRootToken]), v2)
                | (None, v2) \<Rightarrow> Some (None, v2))
          else Some (None, v1))"

text \<open>
  \<open>Init\<close> from the seal-status call to the end: the init request, the call, the stores.
\<close>

definition Init_vault :: "'w SysAPI \<Rightarrow> nat \<Rightarrow> ('w, 'c) vault \<Rightarrow> (error option \<times> ('w, 'c) vault) option" where
  "Init_vault api fuel v =
     (case call (api_SealStatus api) SysSealStatus v of
        (Inl err, v1) \<Rightarrow> Some (Some (errors_Wrap err ''error getting seal status''), v1)
      | (Inr sealResp, v1) \<Rightarrow>
          (let initRequest =
                 (if RecoverySeal sealResp
                  then \<lparr>ir_SecretShares = 0, ir_SecretThreshold = 0,
                         ir_RecoveryShares = SecretShares (config v),
                         ir_RecoveryThreshold = SecretThreshold (config v)\<rparr>
                  else \<lparr>ir_SecretShares = SecretShares (config v),
                         ir_SecretThreshold = SecretThreshold (config v),
                         ir_RecoveryShares = 0, ir_RecoveryThreshold = 0\<rparr>)
           in case call (api_Init api initRequest) (SysInit initRequest) v1 of
                (Inl err, v2) \<Rightarrow> Some (Some (errors_Wrap err ''error initializing vault''), v2)
              | (Inr resp, v2) \<Rightarrow>
                  (case Init_store keyUnsealForID (''error storing unseal key '%s'' @ sq)
                          (Keys resp) 0 v2 of
                     (Some err, v3) \<Rightarrow> Some (Some err, v3)
                   | (None, v3) \<Rightarrow>
                       (case Init_store keyRecoveryForID (''error storing recovery key '%s'' @ sq)
                               (RecoveryKeys resp) 0 v3 of
                          (Some err, v4) \<Rightarrow> Some (Some err, v4)
                        | (None, v4) \<Rightarrow> Init_rootToken api fuel resp v4))))"

text \<open>
  \<open>Init\<close>. The keys to test are \<open>vault-root\<close> and then \<open>vault-unseal-i\<close> for the
  counter \<open>i\<close> from 0 while \<open>i <= SecretShares\<close>: none when \<open>SecretShares\<close> is negative.
\<close>

definition Init_keys :: "Config \<Rightarrow> string list" where
  "Init_keys c = keyRootToken # map keyUnsealForID [0 ..< nat (SecretShares c + 1)]"

definition Init :: "'w SysAPI \<Rightarrow> nat \<Rightarrow> ('w, 'c) vault \<Rightarrow> (error option \<times> ('w, 'c) vault) option" where
  "Init api fuel v =
     (case call (api_InitStatus api) SysInitStatus v of
        (Inl err, v1) \<Rightarrow> Some (Some (errors_Wrap err ''error testing if vault is initialized''), v1)
      | (Inr initialized, v1) \<Rightarrow>
          if initialized then Some (None, v1)
          else
            (case (if PreFlightChecks (config v)
                   then kvTester_Test keyTestField v1
                   else (None, v1)) of
               (Some err, v2) \<Rightarrow> Some (Some (errors_Wrap err ''error testing keystore before init''), v2)
             | (None, v2) \<Rightarrow>
                 (case Init_test_keys (Init_keys (config v)) v2 of
                    (Some err, v3) \<Rightarrow> Some (Some err, v3)
                  | (None, v3) \<Rightarrow> Init_vault api fuel v3)))"


section \<open>Keybase fetcher\<close>

text \<open>
  What \<open>FetchKeybasePubkeys\<close> calls outside this package: the HTTP client (whether
  \<open>cleanhttp.DefaultClient\<close> returned one, and the body its \<open>Get\<close> returns for a URL),
  the JSON decoder, which yields the status name and the primary bundle of each entry of
  \<open>Them\<close>, the OpenPGP reader, whose entity list may hold nil entries, the serializer of
  an entity, and the base64 encoder. Entities are of a type \<open>'e\<close> this file does not
  look into.
\<close>

record KbResp =
  StatusName :: string
  Them :: "string list"

record 'e KeybaseEnv =
  DefaultClient_ok :: bool
  client_Get :: "string \<Rightarrow> error + string"
  DecodeJSON :: "string \<Rightarrow> error + KbResp"
  ReadArmoredKeyRing :: "string \<Rightarrow> error + 'e option list"
  Serialize :: "'e \<Rightarrow> error + bytes"
  EncodeToString :: "bytes \<Rightarrow> string"

definition kbPrefix :: string where
  "kbPrefix = ''keybase:''"

definition HasPrefix :: "string \<Rightarrow> string \<Rightarrow> bool" where
  "HasPrefix s p \<longleftrightarrow> take (length p) s = p"

definition TrimPrefix :: "string \<Rightarrow> string \<Rightarrow> string" where
  "TrimPrefix s p = (if HasPrefix s p then drop (length p) s else s)"

fun Join :: "string list \<Rightarrow> string \<Rightarrow> string" where
  "Join [] sep = []"
| "Join [x] sep = x"
| "Join (x # y # xs) sep = x @ sep @ Join (y # xs) sep"

text \<open>An indexed read \<open>xs[i]\<close>: out of range it panics.\<close>

definition index :: "'a list \<Rightarrow> nat \<Rightarrow> error + 'a" where
  "index xs i = (if i < length xs then Inr (xs ! i) else Inl PanicIndex)"

text \<open>The first loop: the user names of the entries that carry the prefix.\<close>

primrec kb_usernames :: "string list \<Rightarrow> string list \<Rightarrow> string list" where
  "kb_usernames [] usernames = usernames"
| "kb_usernames (v # input) usernames =
     (if HasPrefix v kbPrefix
      then kb_usernames input (usernames @ [TrimPrefix v kbPrefix])
      else kb_usernames input usernames)"

text \<open>
  The loop over \<open>out.Them\<close>, with the index \<open>i\<close>, the slice \<open>ret\<close> and the missing
  names so far. Each message that names \<open>usernames[i]\<close> reads that index first.
\<close>

primrec kb_loop :: "'e KeybaseEnv \<Rightarrow> string list \<Rightarrow> string list \<Rightarrow> nat \<Rightarrow> string list
    \<Rightarrow> string list \<Rightarrow> error + (string list \<times> string list)" where
  "kb_loop env usernames [] i ret missingNames = Inr (ret, missingNames)"
| "kb_loop env usernames (bundle # them) i ret missingNames =
     (if bundle = []
      then (case index usernames i of
              Inl p \<Rightarrow> Inl p
            | Inr name \<Rightarrow> kb_loop env usernames them (i + 1) ret (missingNames @ [name]))
      else (case ReadArmoredKeyRing env bundle of
              Inl err \<Rightarrow> Inl err
            | Inr entityList \<Rightarrow>
                if length entityList \<noteq> 1
                then (case index usernames i of
                        Inl p \<Rightarrow> Inl p
                      | Inr name \<Rightarrow>
                          Inl (fmt_Errorf ''primary key could not be parsed for user %q'' [name]))
                else (case entityList ! 0 of
                        None \<Rightarrow>
                          (case index usernames i of
                             Inl p \<Rightarrow> Inl p
                           | Inr name \<Rightarrow> Inl (fmt_Errorf ''primary key was nil for user %q'' [name]))
                      | Some entity \<Rightarrow>
                          (case Serialize env entity of
                             Inl err \<Rightarrow>
                               (case index usernames i of
                                  Inl p \<Rightarrow> Inl p
                                | Inr name \<Rightarrow>
                                    Inl (fmt_ErrorfW ''error serializing entity for user %q: %w''
                                      [name] err))
                           | Inr serialized \<Rightarrow>
                               if i < length ret
                               then kb_loop env usernames them (i + 1)
                                      (ret[i := EncodeToString env serialized]) missingNames
                               else Inl PanicIndex))))"

text \<open>
  \<open>FetchKeybasePubkeys\<close>. A nil slice is the empty list; \<open>ret\<close> starts as
  \<open>len(usernames)\<close> empty strings.
\<close>

definition FetchKeybasePubkeys :: "'e KeybaseEnv \<Rightarrow> string list \<Rightarrow> error + string list" where
  "FetchKeybasePubkeys env input =
     (if \<not> DefaultClient_ok env then Inl (fmt_Errorf ''unable to create an http client'' [])
      else if length input = 0 then Inr []
      else
        (let usernames = kb_usernames input [] in
         if length usernames = 0 then Inr []
         else
           (let ret = replicate (length usernames) [];
                url = ''https://keybase.io/_/api/1.0/user/lookup.json?usernames=''
                      @ Join usernames '','' @ ''&fields=public_keys''
            in case client_Get env url of
                 Inl err \<Rightarrow> Inl err
               | Inr body \<Rightarrow>
                   (case DecodeJSON env body of
                      Inl err \<Rightarrow> Inl err
                    | Inr out \<Rightarrow>
                        if StatusName out \<noteq> ''OK''
                        then Inl (fmt_Errorf ''got non-OK response: %q'' [StatusName out])
                        else (case kb_loop env usernames (Them out) 0 ret [] of
                                Inl err \<Rightarrow> Inl err
                              | Inr (ret', missingNames) \<Rightarrow>
                                  if length missingNames > 0
                                  then Inl (fmt_Errorf
                                         ''unable to fetch keys for user(s) %q from keybase''
                                         [Join missingNames '',''])
                                  else Inr ret')))))"

section \<open>Rekey\<close>

definition initializeRekey :: "'w SysAPI \<Rightarrow> string list \<Rightarrow> ('w, 'c) vault
    \<Rightarrow> (error + string) \<times> ('w, 'c) vault" where
  "initializeRekey api pgpKeys v =
     (let rekeyRequest = \<lparr>ri_SecretShares = SecretShares (config v),
                           ri_SecretThreshold = SecretThreshold (config v),
                           ri_PGPKeys = pgpKeys\<rparr>
      in case call (api_RekeyInit api rekeyRequest) (SysRekeyInit rekeyRequest) v of
           (Inl err, v1) \<Rightarrow> (Inl (errors_Wrapf err ''unable to start rekey init process'' []), v1)
         | (Inr resp, v1) \<Rightarrow>
             if rs_Nonce resp = []
             then (Inl (errors_New
               ''failed to init rekey operation: empty nonce returned. Vault auth token may be incorrect''), v1)
             else (Inr (rs_Nonce resp), v1))"

text \<open>
  \<open>sendRekeyUpdates\<close>: an unbounded loop, hence fuel. The error of \<open>RekeyCancel\<close> is
  logged and dropped.
\<close>

primrec sendRekeyUpdates_loop :: "'w SysAPI \<Rightarrow> nat \<Rightarrow> nat \<Rightarrow> string \<Rightarrow> ('w, 'c) vault
    \<Rightarrow> ((error + RekeyUpdateResponse) \<times> ('w, 'c) vault) option" where
  "sendRekeyUpdates_loop api 0 i nonce v = None"
| "sendRekeyUpdates_loop api (Suc n) i nonce v =
     (let keyID = keyUnsealForID i in
      case keyStore_Get keyID v of
        (Inl err, v1) \<Rightarrow> Some (Inl (errors_Wrapf err (''unable to get key '%s'' @ sq) [keyID]), v1)
      | (Inr k, v1) \<Rightarrow>
          (case call (api_RekeyUpdate api (string_of k) nonce) (SysRekeyUpdate (string_of k) nonce) v1 of
             (Inl err, v2) \<Rightarrow>
               (case call (api_RekeyCancel api) SysRekeyCancel v2 of
                  (cerr, v3) \<Rightarrow>
                    Some (Inl (errors_Wrap err ''failed to send rekey update request to vault''), v3))
           | (Inr resp, v2) \<Rightarrow>
               if ru_Complete resp then Some (Inr resp, v2)
               else sendRekeyUpdates_loop api n (i + 1) nonce v2))"

definition sendRekeyUpdates :: "'w SysAPI \<Rightarrow> nat \<Rightarrow> string \<Rightarrow> ('w, 'c) vault
    \<Rightarrow> ((error + RekeyUpdateResponse) \<times> ('w, 'c) vault) option" where
  "sendRekeyUpdates api fuel nonce v = sendRekeyUpdates_loop api fuel 0 nonce v"

text \<open>
  \<open>finishRekey\<close>: the loop \<open>for i, k := range resp.KeysB64\<close>. The read
  \<open>pgpKeyNames[i]\<close> has no bounds check in the source; out of range it panics, and the
  panic is the result \<open>PanicIndex\<close>.
\<close>

primrec finishRekey_loop :: "(string \<Rightarrow> error + bytes) \<Rightarrow> string list \<Rightarrow> string list \<Rightarrow> nat
    \<Rightarrow> ('w, 'c) vault \<Rightarrow> error option \<times> ('w, 'c) vault" where
  "finishRekey_loop dec pgpKeyNames [] i v = (None, v)"
| "finishRekey_loop dec pgpKeyNames (k # ks) i v =
     (case index pgpKeyNames i of
        Inl p \<Rightarrow> (Some p, v)
      | Inr name \<Rightarrow>
          (let keyID = name @ ''-'' @ keyUnsealForID i in
           case keyPGPSet dec keyID (bytes_of k) v of
             (Some err, v1) \<Rightarrow>
               (Some (errors_Wrapf err (''error storing unseal key '%s'' @ sq) [keyID]), v1)
           | (None, v1) \<Rightarrow> finishRekey_loop dec pgpKeyNames ks (i + 1) v1))"

definition finishRekey :: "(string \<Rightarrow> error + bytes) \<Rightarrow> RekeyUpdateResponse \<Rightarrow> string list
    \<Rightarrow> ('w, 'c) vault \<Rightarrow> error option \<times> ('w, 'c) vault" where
  "finishRekey dec resp pgpKeyNames v = finishRekey_loop dec pgpKeyNames (KeysB64 resp) 0 v"

text \<open>
  \<open>Rekey\<close> between the registration of the deferred removal and the return: the status,
  the Keybase keys, the nonce, the updates, the stores.
\<close>

definition Rekey_body :: "'e KeybaseEnv \<Rightarrow> (string \<Rightarrow> error + bytes) \<Rightarrow> 'w SysAPI \<Rightarrow> nat \<Rightarrow> string list
    \<Rightarrow> ('w, 'c) vault \<Rightarrow> (error option \<times> ('w, 'c) vault) option" where
  "Rekey_body env dec api fuel pgpKeys v =
     (case call (api_RekeyStatus api) SysRekeyStatus v of
        (Inl err, v1) \<Rightarrow> Some (Some (errors_Wrapf err ''unable to check rekey status'' []), v1)
      | (Inr respStatus, v1) \<Rightarrow>
          (case FetchKeybasePubkeys env pgpKeys of
             Inl err \<Rightarrow>
               Some (Some (errors_Wrapf err ''unable to fetch Keybase PGP keys: %v'' []), v1)
           | Inr keybaseKeys \<Rightarrow>
               (case (if \<not> rs_Started respStatus
                      then initializeRekey api keybaseKeys v1
                      else (Inr (rs_Nonce respStatus), v1)) of
                  (Inl err, v2) \<Rightarrow> Some (Some err, v2)
                | (Inr nonce, v2) \<Rightarrow>
                    (case sendRekeyUpdates api fuel nonce v2 of
                       None \<Rightarrow> None
                     | Some (Inl err, v3) \<Rightarrow> Some (Some err, v3)
                     | Some (Inr resp, v3) \<Rightarrow> Some (finishRekey dec resp pgpKeys v3)))))"

text \<open>
  \<open>Rekey\<close>. The check for an empty list returns before the deferred function is
  registered; on every later exit, a panic included, the deferred function calls
  \<open>os.Remove\<close> on each element of \<open>pgpKeys\<close>. The last argument of the \<open>%v\<close> message
  is the error itself, which the wrapped error already holds.
\<close>

definition Rekey :: "'e KeybaseEnv \<Rightarrow> (string \<Rightarrow> error + bytes) \<Rightarrow> 'w SysAPI \<Rightarrow> nat \<Rightarrow> string list
    \<Rightarrow> ('w, 'c) vault \<Rightarrow> (error option \<times> ('w, 'c) vault) option" where
  "Rekey env dec api fuel pgpKeys v =
     (if length pgpKeys = 0
      then Some (Some (errors_New ''no PGP keys provided for rekey operation''), v)
      else (case Rekey_body env dec api fuel pgpKeys v of
              None \<Rightarrow> None
            | Some (r, v1) \<Rightarrow> Some (r, v1\<lparr>trace := trace v1 @ map OsRemove pgpKeys\<rparr>)))"

section \<open>Predicates on traces\<close>

text \<open>The keys asked of the keystore in a trace, in order.\<close>

primrec kv_gets :: "event list \<Rightarrow> string list" where
  "kv_gets [] = []"
| "kv_gets (e # es) = (case e of KVGet key r \<Rightarrow> key # kv_gets es | _ \<Rightarrow> kv_gets es)"

text \<open>
  What a returned run of the unseal loop started at index \<open>i\<close> satisfies, in terms of its
  result \<open>r\<close> and the events \<open>es\<close> it added.
\<close>

definition unseal_ok :: "nat \<Rightarrow> error option \<Rightarrow> event list \<Rightarrow> bool" where
  "unseal_ok i r es \<longleftrightarrow>
     kv_gets es = map keyUnsealForID [i ..< i + length (kv_gets es)]
   \<and> (r = None \<longleftrightarrow> (\<exists>k resp. SysUnseal k (Inr resp) \<in> set es \<and> \<not> Sealed resp))
   \<and> (\<forall>k resp. SysUnseal k (Inr resp) \<in> set es \<and> Sealed resp \<and> Progress resp = 0 \<longrightarrow>
         r = Some (errors_New ''failed to unseal vault, are you using the right unseal keys?'')
         \<and> last es = SysUnseal k (Inr resp))"

text \<open>
  The sets asked of the keystore in a trace (key, value, answer), the events that touch
  tokens, and the events of a wait for the unseal: a status that reports sealed followed
  by a sleep, any number of times, then one last status.
\<close>

primrec kv_sets :: "event list \<Rightarrow> (string \<times> bytes \<times> error option) list" where
  "kv_sets [] = []"
| "kv_sets (e # es) = (case e of KVSet key val r \<Rightarrow> (key, val, r) # kv_sets es | _ \<Rightarrow> kv_sets es)"

definition is_token_op :: "event \<Rightarrow> bool" where
  "is_token_op e =
     (case e of SetToken t \<Rightarrow> True | TokenCreateOrphan req r \<Rightarrow> True
      | TokenRevokeSelf t r \<Rightarrow> True | _ \<Rightarrow> False)"

definition wait_events :: "SealStatusResponse list \<Rightarrow> error + SealStatusResponse \<Rightarrow> event list" where
  "wait_events ss r = concat (map (\<lambda>s. [SysSealStatus (Inr s), Sleep]) ss) @ [SysSealStatus r]"

text \<open>The key under which \<open>finishRekey\<close> stores the share of index \<open>i\<close>.\<close>

definition rekeyKeyID :: "string list \<Rightarrow> nat \<Rightarrow> string" where
  "rekeyKeyID names i = names ! i @ ''-'' @ keyUnsealForID i"

section \<open>Example keystores, servers and configurations\<close>

definition kv_empty :: KVService where
  "kv_empty = \<lparr>store = Map.empty, get_fault = Map.empty, set_fault = Map.empty\<rparr>"

text \<open>A server that cannot be reached: every call fails.\<close>

definition api_down :: "'w SysAPI" where
  "api_down =
     \<lparr>api_InitStatus = (\<lambda>w. (Inl (External ''connection refused''), w)),
      api_SealStatus = (\<lambda>w. (Inl (External ''connection refused''), w)),
      api_Init = (\<lambda>r w. (Inl (External ''connection refused''), w)),
      api_Unseal = (\<lambda>k w. (Inl (External ''connection refused''), w)),
      api_RekeyStatus = (\<lambda>w. (Inl (External ''connection refused''), w)),
      api_RekeyInit = (\<lambda>r w. (Inl (External ''connection refused''), w)),
      api_RekeyUpdate = (\<lambda>k n w. (Inl (External ''connection refused''), w)),
      api_RekeyCancel = (\<lambda>w. (Some (External ''connection refused''), w)),
      api_GenerateRootCancel = (\<lambda>w. (Some (External ''connection refused''), w)),
      api_GenerateRootInit = (\<lambda>a b w. (Inl (External ''connection refused''), w)),
      api_GenerateRootUpdate = (\<lambda>k n w. (Inl (External ''connection refused''), w)),
      api_CreateOrphan = (\<lambda>r w. (Some (External ''connection refused''), w)),
      api_RevokeSelf = (\<lambda>t w. (Some (External ''connection refused''), w))\<rparr>"

definition cfg53 :: Config where
  "cfg53 = \<lparr>SecretShares = 5, SecretThreshold = 3, InitRootToken = [], StoreRootToken = True,
     PreFlightChecks = False\<rparr>"

definition vault_of :: "KVService \<Rightarrow> Config \<Rightarrow> 'w \<Rightarrow> ('w, unit) vault" where
  "vault_of k c w = \<lparr>keyStore = k, cl_token = [], cl_world = w, config = c,
     externalConfig = (), rotateCache = Map.empty, trace = []\<rparr>"

text \<open>A server that answers every unseal request with Sealed and Progress 0.\<close>

definition api_badkey :: "unit SysAPI" where
  "api_badkey = api_down\<lparr>api_Unseal :=
     (\<lambda>k w. (Inr \<lparr>Sealed = True, Progress = 0, RecoverySeal = False\<rparr>, w))\<rparr>"

definition kv_badkey :: KVService where
  "kv_badkey = kv_empty\<lparr>store := [''vault-unseal-0'' \<mapsto> bytes_of ''badkey'']\<rparr>"

text \<open>A server that unseals at the third share; its state counts the shares received.\<close>

definition api_threshold3 :: "nat SysAPI" where
  "api_threshold3 = api_down\<lparr>api_Unseal :=
     (\<lambda>k w. (Inr \<lparr>Sealed = (w < 2), Progress = (if w < 2 then int w + 1 else 0),
                  RecoverySeal = False\<rparr>, w + 1))\<rparr>"

definition kv_shares3 :: KVService where
  "kv_shares3 = kv_empty\<lparr>store := [''vault-unseal-0'' \<mapsto> bytes_of ''k0'',
     ''vault-unseal-1'' \<mapsto> bytes_of ''k1'', ''vault-unseal-2'' \<mapsto> bytes_of ''k2'']\<rparr>"


text \<open>
  One share, threshold one; and the variants of this configuration used below.
\<close>

definition cfg11 :: Config where
  "cfg11 = \<lparr>SecretShares = 1, SecretThreshold = 1, InitRootToken = [], StoreRootToken = False,
     PreFlightChecks = False\<rparr>"

text \<open>An uninitialized server of which only the init status can be asked.\<close>

definition api_uninit :: "unit SysAPI" where
  "api_uninit = api_down\<lparr>api_InitStatus := (\<lambda>w. (Inr False, w))\<rparr>"

definition kv_test_present :: KVService where
  "kv_test_present = kv_empty\<lparr>store := [''vault-test'' \<mapsto> bytes_of ''old'']\<rparr>"

definition kv_test_denied :: KVService where
  "kv_test_denied = kv_empty\<lparr>get_fault := [''vault-test'' \<mapsto> External ''permission denied'']\<rparr>"

text \<open>
  A fresh server: uninitialized, unsealed once asked, its init call returns one key and
  the root token \<open>tmp\<close>, and its token calls succeed.
\<close>

definition api_fresh :: "unit SysAPI" where
  "api_fresh = api_down\<lparr>
     api_InitStatus := (\<lambda>w. (Inr False, w)),
     api_SealStatus := (\<lambda>w. (Inr \<lparr>Sealed = False, Progress = 0, RecoverySeal = False\<rparr>, w)),
     api_Init := (\<lambda>r w. (Inr \<lparr>Keys = [''k0''], RecoveryKeys = [], RootToken = ''tmp''\<rparr>, w)),
     api_CreateOrphan := (\<lambda>r w. (None, w)),
     api_RevokeSelf := (\<lambda>t w. (None, w))\<rparr>"

definition kv_root_denied :: KVService where
  "kv_root_denied = kv_empty\<lparr>get_fault := [''vault-root'' \<mapsto> External ''permission denied'']\<rparr>"




text \<open>Two completed rekey answers: one whose first key is not base64, one with two keys.\<close>

definition resp_badfirst :: RekeyUpdateResponse where
  "resp_badfirst = \<lparr>ru_Complete = True, KeysB64 = [''!'', ''QQ=='']\<rparr>"

definition resp_two :: RekeyUpdateResponse where
  "resp_two = \<lparr>ru_Complete = True, KeysB64 = [''QQ=='', ''Qg=='']\<rparr>"


section \<open>Properties of the XOR codec\<close>

lemma XORBytes_length:
  "XORBytes a b = Inr c \<Longrightarrow> length c = length a"
  by (auto simp: XORBytes_def split: if_splits)

lemma XORBytes_fails_iff:
  "(\<exists>e. XORBytes a b = Inl e) \<longleftrightarrow> length a \<noteq> length b"
  by (simp add: XORBytes_def)

lemma XORBytes_nth:
  "length a = length b \<Longrightarrow> XORBytes a b = Inr (map (\<lambda>i. (a ! i) XOR (b ! i)) [0 ..< length a])"
  by (simp add: XORBytes_def)

lemma XORBytes_self_inverse:
  assumes "length a = length b"
  shows "\<exists>c. XORBytes a b = Inr c \<and> XORBytes c b = Inr a"
proof -
  let ?c = "map (\<lambda>i. (a ! i) XOR (b ! i)) [0 ..< length a]"
  have 1: "XORBytes a b = Inr ?c"
    using assms by (rule XORBytes_nth)
  have "map (\<lambda>i. (?c ! i) XOR (b ! i)) [0 ..< length ?c] = a"
    by (rule nth_equalityI) (simp_all add: xor.assoc)
  then have "XORBytes ?c b = Inr a"
    using assms by (simp add: XORBytes_def)
  with 1 show ?thesis by blast
qed

text \<open>
  C8. \<open>XORBytes a b\<close> fails exactly when the lengths differ and otherwise returns the
  byte-wise XOR; hence for equal lengths XOR-ing the result with \<open>b\<close> again gives \<open>a\<close>
  back. \<open>XORBase64\<close> decodes both inputs with the standard decoder, fails when a decoding
  fails or is empty, and otherwise returns what \<open>XORBytes\<close> returns on the decoded bytes.
\<close>

theorem C8_xor_codec:
  "((\<exists>e. XORBytes a b = Inl e) \<longleftrightarrow> length a \<noteq> length b)
   \<and> (length a = length b \<longrightarrow>
        (\<exists>c. XORBytes a b = Inr c \<and> length c = length a
           \<and> (\<forall>i < length a. c ! i = (a ! i) XOR (b ! i))
           \<and> XORBytes c b = Inr a))
   \<and> (\<forall>x y. dec s = Inr x \<and> dec t = Inr y \<and> x \<noteq> [] \<and> y \<noteq> []
          \<longrightarrow> XORBase64 dec s t = XORBytes x y)
   \<and> ((dec s = Inr [] \<or> (\<exists>x. dec s = Inr x \<and> x \<noteq> [] \<and> dec t = Inr []))
          \<longrightarrow> (\<exists>e. XORBase64 dec s t = Inl e))
   \<and> (((\<exists>e. dec s = Inl e) \<or> (\<exists>x e. dec s = Inr x \<and> dec t = Inl e))
          \<longrightarrow> (\<exists>e. XORBase64 dec s t = Inl e))"
proof (intro conjI)
  show "(\<exists>e. XORBytes a b = Inl e) \<longleftrightarrow> length a \<noteq> length b"
    by (rule XORBytes_fails_iff)
  show "length a = length b \<longrightarrow>
        (\<exists>c. XORBytes a b = Inr c \<and> length c = length a
           \<and> (\<forall>i < length a. c ! i = (a ! i) XOR (b ! i))
           \<and> XORBytes c b = Inr a)"
  proof
    assume eq: "length a = length b"
    from XORBytes_self_inverse [OF eq] obtain c
      where c: "XORBytes a b = Inr c" "XORBytes c b = Inr a" by blast
    from c(1) eq have "c = map (\<lambda>i. (a ! i) XOR (b ! i)) [0 ..< length a]"
      by (simp add: XORBytes_def)
    then have "length c = length a" "\<forall>i < length a. c ! i = (a ! i) XOR (b ! i)"
      by simp_all
    with c show "\<exists>c. XORBytes a b = Inr c \<and> length c = length a
           \<and> (\<forall>i < length a. c ! i = (a ! i) XOR (b ! i))
           \<and> XORBytes c b = Inr a"
      by blast
  qed
  show "\<forall>x y. dec s = Inr x \<and> dec t = Inr y \<and> x \<noteq> [] \<and> y \<noteq> []
          \<longrightarrow> XORBase64 dec s t = XORBytes x y"
    by (simp add: XORBase64_def)
  show "(dec s = Inr [] \<or> (\<exists>x. dec s = Inr x \<and> x \<noteq> [] \<and> dec t = Inr []))
          \<longrightarrow> (\<exists>e. XORBase64 dec s t = Inl e)"
    by (auto simp: XORBase64_def)
  show "((\<exists>e. dec s = Inl e) \<or> (\<exists>x e. dec s = Inr x \<and> dec t = Inl e))
          \<longrightarrow> (\<exists>e. XORBase64 dec s t = Inl e)"
    by (auto simp: XORBase64_def XORBytes_def split: sum.splits)
qed

theorem C8_xor_codec_witness:
  "XORBytes [1, 2] [3, 4] = Inr [2, 6]
   \<and> XORBytes [2, 6] [3, 4] = Inr [1, 2]
   \<and> (\<exists>e. XORBytes [1, 2] [3] = Inl e)
   \<and> XORBase64 dec_tab ''AQI='' ''AwQ='' = Inr [2, 6]
   \<and> (\<exists>e. XORBase64 dec_tab [] ''AwQ='' = Inl e)
   \<and> (\<exists>e. XORBase64 dec_tab ''AQI='' ''!'' = Inl e)"
proof -
  have d: "dec_tab ''AQI='' = Inr [1, 2]" "dec_tab ''AwQ='' = Inr [3, 4]"
    "dec_tab [] = Inr []" "dec_tab ''!'' = Inl (External ''illegal base64 data'')"
    by (simp_all add: dec_tab_def)
  note t = C8_xor_codec [of "[1, 2]" "[3, 4]" dec_tab "''AQI=''" "''AwQ=''"]
  note u = C8_xor_codec [of "[1, 2]" "[3]" dec_tab "[]" "''AwQ=''"]
  note v = C8_xor_codec [of "[1, 2]" "[3]" dec_tab "''AQI=''" "''!''"]
  have x: "XORBytes [1, 2] [3, 4] = Inr [2, 6]"
    by (simp add: XORBytes_def upt_rec)
  have 1: "XORBytes [2, 6] [3, 4] = Inr [1, 2]"
    using t x by simp
  have 2: "\<exists>e. XORBytes [1, 2] [3] = Inl e"
    using u by simp
  have 3: "XORBase64 dec_tab ''AQI='' ''AwQ='' = Inr [2, 6]"
    using t d x by simp
  have 4: "\<exists>e. XORBase64 dec_tab [] ''AwQ='' = Inl e"
    using u d by simp
  have 5: "\<exists>e. XORBase64 dec_tab ''AQI='' ''!'' = Inl e"
    using v d by blast
  from x 1 2 3 4 5 show ?thesis by simp
qed

section \<open>Decimal indices\<close>

lemma show_nat_digits [simp]:
  "show_nat 0 = ''0''" "show_nat 1 = ''1''" "show_nat 2 = ''2''" "show_nat 3 = ''3''"
  "show_nat 4 = ''4''" "show_nat 5 = ''5''" "show_nat 6 = ''6''"
  by code_simp+

lemma show_nat_Suc [simp]:
  "show_nat (Suc 0) = ''1''" "show_nat (Suc (Suc 0)) = ''2''"
  "show_nat (Suc (Suc (Suc 0))) = ''3''" "show_nat (Suc (Suc (Suc (Suc 0)))) = ''4''"
  "show_nat (Suc (Suc (Suc (Suc (Suc 0))))) = ''5''"
  "show_nat (Suc (Suc (Suc (Suc (Suc (Suc 0)))))) = ''6''"
  using show_nat_digits by (simp_all add: eval_nat_numeral del: show_nat_digits)

section \<open>Unseal\<close>

lemma trace_keyStore_Get:
  "keyStore_Get key v = (g, v1) \<Longrightarrow> trace v1 = trace v @ [KVGet key g]"
  by (auto simp: keyStore_Get_def Let_def)

lemma trace_call:
  "call f ev v = (r, v1) \<Longrightarrow> trace v1 = trace v @ [ev r]"
  by (auto simp: call_def split: prod.splits)

lemma Unseal_loop_spec:
  "Unseal_loop api n i v = Some (r, v') \<Longrightarrow> \<exists>es. trace v' = trace v @ es \<and> unseal_ok i r es"
proof (induction n arbitrary: i v)
  case 0
  then show ?case by simp
next
  case (Suc n)
  let ?key = "keyUnsealForID i"
  obtain g v1 where g: "keyStore_Get ?key v = (g, v1)" by (cases "keyStore_Get ?key v")
  then have t1: "trace v1 = trace v @ [KVGet ?key g]"
    by (rule trace_keyStore_Get)
  show ?case
  proof (cases g)
    case (Inl err)
    with Suc.prems g have "r = Some (errors_Wrapf err (''unable to get key '%s'' @ sq) [?key])" "v' = v1"
      by (simp_all add: Let_def)
    with t1 Inl show ?thesis by (auto simp: unseal_ok_def)
  next
    case (Inr k)
    obtain u v2 where u: "call (api_Unseal api (string_of k)) (SysUnseal (string_of k)) v1 = (u, v2)"
      by (cases "call (api_Unseal api (string_of k)) (SysUnseal (string_of k)) v1")
    then have t2: "trace v2 = trace v @ [KVGet ?key g, SysUnseal (string_of k) u]"
      using t1 by (simp add: trace_call)
    show ?thesis
    proof (cases u)
      case (Inl err)
      with Suc.prems g Inr u have "r = Some (errors_Wrap err ''fail to send unseal request to vault'')" "v' = v2"
        by (simp_all add: Let_def)
      with t2 Inl Inr show ?thesis by (auto simp: unseal_ok_def)
    next
      case resp: (Inr resp)
      consider (unsealed) "\<not> Sealed resp" | (bad) "Sealed resp" "Progress resp = 0"
        | (more) "Sealed resp" "Progress resp \<noteq> 0" by blast
      then show ?thesis
      proof cases
        case unsealed
        with Suc.prems g Inr u resp have "r = None" "v' = v2" by (simp_all add: Let_def)
        with t2 resp Inr unsealed show ?thesis by (auto simp: unseal_ok_def)
      next
        case bad
        with Suc.prems g Inr u resp
        have "r = Some (errors_New ''failed to unseal vault, are you using the right unseal keys?'')" "v' = v2"
          by (simp_all add: Let_def)
        with t2 resp Inr bad show ?thesis by (auto simp: unseal_ok_def)
      next
        case more
        with Suc.prems g Inr u resp have "Unseal_loop api n (i + 1) v2 = Some (r, v')"
          by (simp add: Let_def)
        from Suc.IH [OF this] obtain es where es: "trace v' = trace v2 @ es" "unseal_ok (i + 1) r es"
          by blast
        let ?es = "[KVGet ?key g, SysUnseal (string_of k) u] @ es"
        have "trace v' = trace v @ ?es" using es(1) t2 by simp
        moreover have "unseal_ok i r ?es"
        proof -
          let ?m = "length (kv_gets es)"
          from es(2) have "kv_gets es = map keyUnsealForID [Suc i ..< Suc i + ?m]"
            by (simp add: unseal_ok_def)
          moreover have "[i ..< i + Suc ?m] = i # [Suc i ..< Suc i + ?m]"
            by (simp add: upt_conv_Cons del: upt_Suc)
          ultimately have "?key # kv_gets es = map keyUnsealForID [i ..< i + Suc ?m]"
            by (simp del: upt_Suc)
          then have 1: "kv_gets ?es = map keyUnsealForID [i ..< i + length (kv_gets ?es)]"
            by (simp del: upt_Suc)
          have 2: "r = None \<longleftrightarrow> (\<exists>k resp. SysUnseal k (Inr resp) \<in> set ?es \<and> \<not> Sealed resp)"
            using es(2) more resp unfolding unseal_ok_def by auto
          have 3: "\<forall>k resp. SysUnseal k (Inr resp) \<in> set ?es \<and> Sealed resp \<and> Progress resp = 0 \<longrightarrow>
              r = Some (errors_New ''failed to unseal vault, are you using the right unseal keys?'')
              \<and> last ?es = SysUnseal k (Inr resp)"
            using es(2) more resp unfolding unseal_ok_def by auto
          from 1 2 3 show ?thesis unfolding unseal_ok_def by blast
        qed
        ultimately show ?thesis by blast
      qed
    qed
  qed
qed

text \<open>
  C6, as amended. For every run of \<open>Unseal\<close> that returns, with \<open>es\<close> the events of the
  run: the keys asked of the keystore are \<open>vault-unseal-0\<close>, \<open>vault-unseal-1\<close>, ... in
  order; the run returns success exactly when an unseal response reports Sealed = false;
  and when a response reports Sealed = true with Progress = 0 the run fails with the
  error "failed to unseal vault, are you using the right unseal keys?" and that response
  is the last event of the run, so no further share is fetched or submitted.
\<close>

theorem C6_unseal_amended:
  assumes "Unseal api fuel v = Some (r, v')"
  shows "\<exists>es. trace v' = trace v @ es
     \<and> kv_gets es = map keyUnsealForID [0 ..< length (kv_gets es)]
     \<and> (r = None \<longleftrightarrow> (\<exists>k resp. SysUnseal k (Inr resp) \<in> set es \<and> \<not> Sealed resp))
     \<and> (\<forall>k resp. SysUnseal k (Inr resp) \<in> set es \<and> Sealed resp \<and> Progress resp = 0 \<longrightarrow>
           r = Some (errors_New ''failed to unseal vault, are you using the right unseal keys?'')
           \<and> last es = SysUnseal k (Inr resp))"
proof -
  from assms have "Unseal_loop api fuel 0 v = Some (r, v')"
    by (simp add: Unseal_def)
  from Unseal_loop_spec [OF this] obtain es
    where "trace v' = trace v @ es" "unseal_ok 0 r es" by blast
  then show ?thesis unfolding unseal_ok_def by auto
qed

lemmas unseal_eval = Let_def Unseal_def keyUnsealForID_def keyStore_Get_def kv_Get_def call_def
  api_down_def vault_of_def kv_empty_def

theorem C6_unseal_amended_witness:
  "(\<exists>v'. Unseal api_threshold3 3 (vault_of kv_shares3 cfg53 0) = Some (None, v')
      \<and> kv_gets (trace v') = [''vault-unseal-0'', ''vault-unseal-1'', ''vault-unseal-2'']
      \<and> (\<exists>k resp. SysUnseal k (Inr resp) \<in> set (trace v') \<and> \<not> Sealed resp))
   \<and> (\<exists>v'. Unseal api_badkey 2 (vault_of kv_badkey cfg53 ())
         = Some (Some (errors_New ''failed to unseal vault, are you using the right unseal keys?''), v')
      \<and> last (trace v')
         = SysUnseal (string_of (bytes_of ''badkey'')) (Inr \<lparr>Sealed = True, Progress = 0, RecoverySeal = False\<rparr>))"
proof (intro conjI)
  let ?v = "vault_of kv_shares3 cfg53 (0::nat)"
  have "map_option fst (Unseal api_threshold3 3 ?v) = Some None"
    by (simp add: unseal_eval numeral_3_eq_3 api_threshold3_def kv_shares3_def)
  then obtain v' where run: "Unseal api_threshold3 3 ?v = Some (None, v')"
    by (cases "Unseal api_threshold3 3 ?v") auto
  have g: "map_option (kv_gets \<circ> trace \<circ> snd) (Unseal api_threshold3 3 ?v)
      = Some [''vault-unseal-0'', ''vault-unseal-1'', ''vault-unseal-2'']"
    by (simp add: unseal_eval numeral_3_eq_3 api_threshold3_def kv_shares3_def)
  from C6_unseal_amended [OF run] obtain es where
    "trace v' = trace ?v @ es" "\<exists>k resp. SysUnseal k (Inr resp) \<in> set es \<and> \<not> Sealed resp"
    by auto
  moreover have "trace ?v = []" by (simp add: vault_of_def)
  ultimately have "\<exists>k resp. SysUnseal k (Inr resp) \<in> set (trace v') \<and> \<not> Sealed resp"
    by simp
  with run g show "\<exists>v'. Unseal api_threshold3 3 ?v = Some (None, v')
      \<and> kv_gets (trace v') = [''vault-unseal-0'', ''vault-unseal-1'', ''vault-unseal-2'']
      \<and> (\<exists>k resp. SysUnseal k (Inr resp) \<in> set (trace v') \<and> \<not> Sealed resp)"
    by auto
next
  let ?v = "vault_of kv_badkey cfg53 ()"
  let ?e = "SysUnseal (string_of (bytes_of ''badkey'')) (Inr \<lparr>Sealed = True, Progress = 0, RecoverySeal = False\<rparr>)"
  have t: "map_option (trace \<circ> snd) (Unseal api_badkey 2 ?v)
      = Some [KVGet ''vault-unseal-0'' (Inr (bytes_of ''badkey'')), ?e]"
    by (simp add: unseal_eval numeral_2_eq_2 api_badkey_def kv_badkey_def)
  then obtain r v' where run: "Unseal api_badkey 2 ?v = Some (r, v')"
    by (cases "Unseal api_badkey 2 ?v") auto
  with t have tr: "trace v' = [KVGet ''vault-unseal-0'' (Inr (bytes_of ''badkey'')), ?e]"
    by simp
  from C6_unseal_amended [OF run] obtain es where es: "trace v' = trace ?v @ es"
    and bad: "\<forall>k resp. SysUnseal k (Inr resp) \<in> set es \<and> Sealed resp \<and> Progress resp = 0 \<longrightarrow>
           r = Some (errors_New ''failed to unseal vault, are you using the right unseal keys?'')
           \<and> last es = SysUnseal k (Inr resp)"
    by blast
  have "trace ?v = []" by (simp add: vault_of_def)
  with es tr have "es = [KVGet ''vault-unseal-0'' (Inr (bytes_of ''badkey'')), ?e]" by simp
  with bad have "r = Some (errors_New ''failed to unseal vault, are you using the right unseal keys?'')"
    by simp
  with run tr show "\<exists>v'. Unseal api_badkey 2 ?v
         = Some (Some (errors_New ''failed to unseal vault, are you using the right unseal keys?''), v')
      \<and> last (trace v') = ?e"
    by simp
qed

text \<open>
  C6 as the claim words it fails on the message: with the share \<open>badkey\<close> under
  \<open>vault-unseal-0\<close> and a server answering Sealed = true, Progress = 0, the run ends after
  that one response, and its error is not the one the claim quotes.
\<close>

theorem C6_counterexample:
  "map_option (trace \<circ> snd) (Unseal api_badkey 2 (vault_of kv_badkey cfg53 ()))
     = Some [KVGet ''vault-unseal-0'' (Inr (bytes_of ''badkey'')),
             SysUnseal (string_of (bytes_of ''badkey''))
               (Inr \<lparr>Sealed = True, Progress = 0, RecoverySeal = False\<rparr>)]
   \<and> map_option fst (Unseal api_badkey 2 (vault_of kv_badkey cfg53 ()))
     \<noteq> Some (Some (errors_New ''failed to unseal, are you using the right unseal keys?''))"
  by (simp add: unseal_eval numeral_2_eq_2 api_badkey_def kv_badkey_def)


section \<open>Init\<close>


lemma trace_keyStore_Set:
  "keyStore_Set key val v = (r, v1) \<Longrightarrow> trace v1 = trace v @ [KVSet key val r]"
  by (auto simp: keyStore_Set_def split: prod.splits)

lemma trace_keyStoreNotFound:
  "keyStoreNotFound key v = (r, v1) \<Longrightarrow> \<exists>g. trace v1 = trace v @ [KVGet key g]"
  by (auto simp: keyStoreNotFound_def Let_def keyStore_Get_def split: prod.splits if_splits)

lemma trace_keyStoreSet:
  "keyStoreSet key val v = (r, v1) \<Longrightarrow> \<exists>es. trace v1 = trace v @ es"
  by (auto simp: keyStoreSet_def keyStoreNotFound_def Let_def keyStore_Get_def keyStore_Set_def
      split: prod.splits if_splits option.splits)

lemma trace_Init_test_keys:
  "Init_test_keys keys v = (r, v1) \<Longrightarrow> \<exists>es. trace v1 = trace v @ es"
proof (induction keys arbitrary: v)
  case Nil
  then show ?case by simp
next
  case (Cons key keys)
  obtain nf err v0 where k: "keyStoreNotFound key v = ((nf, err), v0)"
    by (metis prod.exhaust)
  from trace_keyStoreNotFound [OF k] obtain g where g: "trace v0 = trace v @ [KVGet key g]" ..
  show ?case
  proof (cases "(nf \<and> err \<noteq> None) \<or> (\<not> nf \<and> err = None)")
    case True
    with Cons.prems k have "v1 = v0" by (auto split: option.splits bool.splits)
    with g show ?thesis by simp
  next
    case False
    with Cons.prems k have "Init_test_keys keys v0 = (r, v1)"
      by (auto split: option.splits bool.splits)
    from Cons.IH [OF this] g show ?thesis by auto
  qed
qed

lemma trace_Init_store:
  "Init_store keyFor msg ks i v = (r, v1) \<Longrightarrow> \<exists>es. trace v1 = trace v @ es"
proof (induction ks arbitrary: i v)
  case Nil
  then show ?case by simp
next
  case (Cons k ks)
  obtain s v0 where s: "keyStoreSet (keyFor i) (bytes_of k) v = (s, v0)"
    by (metis prod.exhaust)
  from trace_keyStoreSet [OF s] obtain es0 where es0: "trace v0 = trace v @ es0" ..
  show ?case
  proof (cases s)
    case None
    with Cons.prems s have "Init_store keyFor msg ks (i + 1) v0 = (r, v1)"
      by (simp add: Let_def)
    from Cons.IH [OF this] es0 show ?thesis by auto
  next
    case (Some e)
    with Cons.prems s have "v1 = v0" by (simp add: Let_def)
    with es0 show ?thesis by simp
  qed
qed

lemma trace_Sealed_status:
  "Sealed_status api v = (r, v1) \<Longrightarrow> \<exists>es. trace v1 = trace v @ es"
  by (auto simp: Sealed_status_def call_def split: prod.splits sum.splits)

lemma trace_Init_wait:
  "Init_wait api n v = Some v1 \<Longrightarrow> \<exists>es. trace v1 = trace v @ es"
proof (induction n arbitrary: v)
  case 0
  then show ?case by simp
next
  case (Suc n)
  obtain sealed err v0 where s: "Sealed_status api v = ((sealed, err), v0)"
    by (metis prod.exhaust)
  from trace_Sealed_status [OF s] obtain es0 where es0: "trace v0 = trace v @ es0" ..
  show ?case
  proof (cases sealed)
    case True
    with Suc.prems s have "Init_wait api n (v0\<lparr>trace := trace v0 @ [Sleep]\<rparr>) = Some v1"
      by simp
    from Suc.IH [OF this] es0 show ?thesis by auto
  next
    case False
    with Suc.prems s have "v1 = v0" by simp
    with es0 show ?thesis by simp
  qed
qed

lemma trace_Init_setupRootToken:
  "Init_setupRootToken api n resp v = Some (r, v1) \<Longrightarrow> \<exists>es. trace v1 = trace v @ es"
  by (auto simp: Init_setupRootToken_def Let_def cl_SetToken_def call_def
      split: option.splits prod.splits dest!: trace_Init_wait)

lemma trace_Init_rootToken:
  "Init_rootToken api n resp v = Some (r, v1) \<Longrightarrow> \<exists>es. trace v1 = trace v @ es"
  by (auto simp: Init_rootToken_def split: option.splits prod.splits sum.splits if_splits
      dest!: trace_Init_setupRootToken trace_keyStoreSet)

lemma trace_Init_vault:
  "Init_vault api n v = Some (r, v1) \<Longrightarrow> \<exists>es. trace v1 = trace v @ es"
  by (auto simp: Init_vault_def Let_def call_def split: option.splits prod.splits sum.splits if_splits
      dest!: trace_Init_rootToken trace_Init_store)


text \<open>
  C9, as amended. When \<open>PreFlightChecks\<close> is enabled and Vault is uninitialized, every
  run of \<open>Init\<close> that returns starts with the init-status call and the get of
  \<open>vault-test\<close>. If that get fails with an error that is not a not-found error, the run
  ends there with that error wrapped: nothing was set, and the Vault client was not called
  again. In every other case (the get succeeds, or signals not found) the next event is
  the set of \<open>vault-test\<close> to the bytes "vault-test"; if the set fails, the run ends there
  with that error wrapped.
\<close>

theorem C9_preflight_amended:
  assumes uninit: "api_InitStatus api (cl_world v) = (Inr False, w0)"
      and pf: "PreFlightChecks (config v)"
      and run: "Init api fuel v = Some (r, v')"
  shows "\<exists>es. trace v' = trace v @ [SysInitStatus (Inr False),
                   KVGet keyTestField (kv_Get (keyStore v) keyTestField)] @ es
     \<and> ((\<exists>e. kv_Get (keyStore v) keyTestField = Inl e \<and> \<not> notFoundChain e) \<longrightarrow>
          es = [] \<and> keyStore v' = keyStore v \<and> cl_world v' = w0
          \<and> (\<exists>e. kv_Get (keyStore v) keyTestField = Inl e
                \<and> r = Some (errors_Wrap e ''error testing keystore before init'')))
     \<and> (\<not> (\<exists>e. kv_Get (keyStore v) keyTestField = Inl e \<and> \<not> notFoundChain e) \<longrightarrow>
          (\<exists>s es'. es = KVSet keyTestField (bytes_of keyTestField) s # es'
             \<and> s = fst (kv_Set (keyStore v) keyTestField (bytes_of keyTestField))
             \<and> (\<forall>e. s = Some e \<longrightarrow> es' = [] \<and> cl_world v' = w0
                   \<and> r = Some (errors_Wrap e ''error testing keystore before init''))))"
proof -
  let ?g = "kv_Get (keyStore v) keyTestField"
  let ?v0 = "v\<lparr>cl_world := w0, trace := trace v @ [SysInitStatus (Inr False)]\<rparr>"
  let ?v1 = "?v0\<lparr>trace := trace ?v0 @ [KVGet keyTestField ?g]\<rparr>"
  have c0: "call (api_InitStatus api) SysInitStatus v = (Inr False, ?v0)"
    using uninit by (simp add: call_def)
  have g1: "keyStore_Get keyTestField ?v0 = (?g, ?v1)"
    by (simp add: keyStore_Get_def Let_def)
  show ?thesis
  proof (cases "\<exists>e. ?g = Inl e \<and> \<not> notFoundChain e")
    case True
    then obtain e where e: "?g = Inl e" "\<not> notFoundChain e" by blast
    then have "kvTester_Test keyTestField ?v0 = (Some e, ?v1)"
      using g1 by (simp add: kvTester_Test_def)
    with run c0 pf have "r = Some (errors_Wrap e ''error testing keystore before init'')" "v' = ?v1"
      by (simp_all add: Init_def)
    with e True show ?thesis by simp
  next
    case False
    obtain s k where sk: "kv_Set (keyStore v) keyTestField (bytes_of keyTestField) = (s, k)"
      by (metis prod.exhaust)
    let ?v2 = "?v1\<lparr>keyStore := k, trace := trace ?v1 @ [KVSet keyTestField (bytes_of keyTestField) s]\<rparr>"
    have s2: "keyStore_Set keyTestField (bytes_of keyTestField) ?v1 = (s, ?v2)"
      using sk by (simp add: keyStore_Set_def)
    have t: "kvTester_Test keyTestField ?v0 = (s, ?v2)"
      using g1 s2 False by (cases ?g) (auto simp: kvTester_Test_def)
    have "\<exists>es'. trace v' = trace ?v2 @ es'
        \<and> (\<forall>e. s = Some e \<longrightarrow> es' = [] \<and> cl_world v' = w0
              \<and> r = Some (errors_Wrap e ''error testing keystore before init''))"
    proof (cases s)
      case (Some e)
      with run c0 pf t have "r = Some (errors_Wrap e ''error testing keystore before init'')" "v' = ?v2"
        by (simp_all add: Init_def)
      with Some show ?thesis by simp
    next
      case None
      obtain p v3 where p: "Init_test_keys (Init_keys (config v)) ?v2 = (p, v3)"
        by (metis prod.exhaust)
      from trace_Init_test_keys [OF p] obtain es3 where es3: "trace v3 = trace ?v2 @ es3" ..
      show ?thesis
      proof (cases p)
        case (Some e)
        with run c0 pf t None p have "v' = v3" by (simp add: Init_def)
        with es3 None show ?thesis by auto
      next
        case pn: None
        with run c0 pf t None p have "Init_vault api fuel v3 = Some (r, v')" by (simp add: Init_def)
        from trace_Init_vault [OF this] es3 None show ?thesis by auto
      qed
    qed
    then obtain es' where es': "trace v' = trace ?v2 @ es'"
        "\<forall>e. s = Some e \<longrightarrow> es' = [] \<and> cl_world v' = w0
              \<and> r = Some (errors_Wrap e ''error testing keystore before init'')"
      by blast
    have "trace v' = trace v @ [SysInitStatus (Inr False), KVGet keyTestField ?g]
        @ (KVSet keyTestField (bytes_of keyTestField) s # es')"
      using es'(1) by simp
    with False es'(2) sk show ?thesis by auto 
  qed
qed


lemmas init_eval = Let_def Init_def Init_vault_def Init_rootToken_def Init_setupRootToken_def
  Init_keys_def kvTester_Test_def keyStoreSet_def keyStoreNotFound_def keyStore_Get_def
  keyStore_Set_def kv_Get_def kv_Set_def call_def cl_SetToken_def Sealed_status_def
  keyUnsealForID_def keyRecoveryForID_def keyRootToken_def keyTestField_def
  api_down_def vault_of_def kv_empty_def cfg11_def

theorem C9_preflight_amended_witness:
  "(\<exists>v'. Init api_uninit 0 (vault_of kv_test_denied (cfg11\<lparr>PreFlightChecks := True\<rparr>) ())
        = Some (Some (errors_Wrap (External ''permission denied'')
                  ''error testing keystore before init''), v')
      \<and> trace v' = [SysInitStatus (Inr False),
                    KVGet ''vault-test'' (Inl (External ''permission denied''))])
   \<and> (\<exists>r v' es. Init api_uninit 0 (vault_of kv_empty (cfg11\<lparr>PreFlightChecks := True\<rparr>) ())
        = Some (r, v')
      \<and> trace v' = [SysInitStatus (Inr False), KVGet ''vault-test'' (Inl NotFoundError),
                    KVSet ''vault-test'' (bytes_of ''vault-test'') None] @ es)"
proof (intro conjI)
  let ?v = "vault_of kv_test_denied (cfg11\<lparr>PreFlightChecks := True\<rparr>) ()"
  have h1: "api_InitStatus api_uninit (cl_world ?v) = (Inr False, ())"
    by (simp add: api_uninit_def api_down_def)
  have h2: "PreFlightChecks (config ?v)"
    by (simp add: vault_of_def)
  have g: "kv_Get (keyStore ?v) keyTestField = Inl (External ''permission denied'')"
    by (simp add: vault_of_def kv_test_denied_def kv_empty_def kv_Get_def keyTestField_def)
  have "Init api_uninit 0 ?v \<noteq> None"
    by (simp add: init_eval api_uninit_def kv_test_denied_def)
  then obtain r v' where run: "Init api_uninit 0 ?v = Some (r, v')" by auto
  from C9_preflight_amended [OF h1 h2 run] g
  have "trace v' = trace ?v @ [SysInitStatus (Inr False), KVGet keyTestField (Inl (External ''permission denied''))]"
    and "r = Some (errors_Wrap (External ''permission denied'') ''error testing keystore before init'')"
    by auto
  moreover have "trace ?v = []" by (simp add: vault_of_def)
  ultimately show "\<exists>v'. Init api_uninit 0 ?v
        = Some (Some (errors_Wrap (External ''permission denied'')
                  ''error testing keystore before init''), v')
      \<and> trace v' = [SysInitStatus (Inr False),
                    KVGet ''vault-test'' (Inl (External ''permission denied''))]"
    using run by (simp add: keyTestField_def)
next
  let ?v = "vault_of kv_empty (cfg11\<lparr>PreFlightChecks := True\<rparr>) ()"
  have h1: "api_InitStatus api_uninit (cl_world ?v) = (Inr False, ())"
    by (simp add: api_uninit_def api_down_def)
  have h2: "PreFlightChecks (config ?v)"
    by (simp add: vault_of_def)
  have g: "kv_Get (keyStore ?v) keyTestField = Inl NotFoundError"
    by (simp add: vault_of_def kv_empty_def kv_Get_def)
  have s: "fst (kv_Set (keyStore ?v) keyTestField (bytes_of keyTestField)) = None"
    by (simp add: vault_of_def kv_empty_def kv_Set_def)
  have "Init api_uninit 0 ?v \<noteq> None"
    by (simp add: init_eval api_uninit_def upt_rec)
  then obtain r v' where run: "Init api_uninit 0 ?v = Some (r, v')" by auto
  from C9_preflight_amended [OF h1 h2 run] g s
  obtain es' where "trace v' = trace ?v @ [SysInitStatus (Inr False), KVGet keyTestField (Inl NotFoundError)]
      @ (KVSet keyTestField (bytes_of keyTestField) None # es')"
    by auto
  moreover have "trace ?v = []" by (simp add: vault_of_def)
  ultimately show "\<exists>r v' es. Init api_uninit 0 ?v = Some (r, v')
      \<and> trace v' = [SysInitStatus (Inr False), KVGet ''vault-test'' (Inl NotFoundError),
                    KVSet ''vault-test'' (bytes_of ''vault-test'') None] @ es"
    using run by (simp add: keyTestField_def)
qed

text \<open>
  C9 as the claim words it fails: with \<open>vault-test\<close> already present in the keystore the
  get succeeds, it does not signal not found, and the set is performed all the same.
\<close>

theorem C9_counterexample:
  "map_option (take 3 \<circ> trace \<circ> snd)
     (Init api_uninit 0 (vault_of kv_test_present (cfg11\<lparr>PreFlightChecks := True\<rparr>) ()))
   = Some [SysInitStatus (Inr False),
           KVGet ''vault-test'' (Inr (bytes_of ''old'')),
           KVSet ''vault-test'' (bytes_of ''vault-test'') None]"
  by (simp add: init_eval api_uninit_def kv_test_present_def upt_rec)

text \<open>
  The loop that tests the keys, key by key: a key that is present ends \<open>Init\<close> with the
  "already exists" error; a get that fails with an error that is not a not-found error
  falls through both branches, and the loop goes on to the next key.
\<close>

lemma Init_test_keys_present:
  assumes "kv_Get (keyStore v) key = Inr val"
  shows "Init_test_keys (key # keys) v =
     (Some (errors_Errorf ''error before init: value for key '%s' already exists'' [key]),
      v\<lparr>trace := trace v @ [KVGet key (Inr val)]\<rparr>)"
  using assms by (simp add: keyStoreNotFound_def keyStore_Get_def Let_def)

lemma Init_test_keys_absent:
  assumes "kv_Get (keyStore v) key = Inl e" "notFoundChain e"
  shows "Init_test_keys (key # keys) v =
     Init_test_keys keys (v\<lparr>trace := trace v @ [KVGet key (Inl e)]\<rparr>)"
  using assms by (simp add: keyStoreNotFound_def keyStore_Get_def Let_def)

lemma Init_test_keys_backend_error:
  assumes "kv_Get (keyStore v) key = Inl e" "\<not> notFoundChain e"
  shows "Init_test_keys (key # keys) v =
     Init_test_keys keys (v\<lparr>trace := trace v @ [KVGet key (Inl e)]\<rparr>)"
  using assms by (simp add: keyStoreNotFound_def keyStore_Get_def Let_def)

text \<open>
  C4: the code at the failing input. The keystore refuses the get of \<open>vault-root\<close> with
  "permission denied", which is not a not-found error; \<open>SecretShares\<close> is 1. \<open>Init\<close>
  tests \<open>vault-root\<close>, \<open>vault-unseal-0\<close> and \<open>vault-unseal-1\<close>, does not surface the
  error, initializes Vault, stores the unseal key and returns success.
\<close>

theorem C4_probe_error_swallowed:
  "map_option (\<lambda>(r, v'). (r, trace v')) (Init api_fresh 0 (vault_of kv_root_denied cfg11 ()))
   = Some (None,
       [SysInitStatus (Inr False),
        KVGet ''vault-root'' (Inl (External ''permission denied'')),
        KVGet ''vault-unseal-0'' (Inl NotFoundError),
        KVGet ''vault-unseal-1'' (Inl NotFoundError),
        SysSealStatus (Inr \<lparr>Sealed = False, Progress = 0, RecoverySeal = False\<rparr>),
        SysInit \<lparr>ir_SecretShares = 1, ir_SecretThreshold = 1, ir_RecoveryShares = 0,
                 ir_RecoveryThreshold = 0\<rparr>
          (Inr \<lparr>Keys = [''k0''], RecoveryKeys = [], RootToken = ''tmp''\<rparr>),
        KVGet ''vault-unseal-0'' (Inl NotFoundError),
        KVSet ''vault-unseal-0'' (bytes_of ''k0'') None])"
  by (simp add: init_eval api_fresh_def kv_root_denied_def upt_rec)


section \<open>Root-token handling of Init\<close>


lemma kv_sets_append [simp]: "kv_sets (xs @ ys) = kv_sets xs @ kv_sets ys"
  by (induction xs) (auto split: event.splits)

lemma kv_sets_wait_events [simp]: "kv_sets (wait_events ss r) = []"
  by (induction ss) (auto simp: wait_events_def)

lemma token_ops_wait_events [simp]: "filter is_token_op (wait_events ss r) = []"
  by (induction ss) (auto simp: wait_events_def is_token_op_def)


lemma wait_events_Cons:
  "[SysSealStatus (Inr s), Sleep] @ wait_events ss r = wait_events (s # ss) r"
  by (simp add: wait_events_def)









section \<open>Key names are distinct\<close>


lemma string_of_bytes_of [simp]: "string_of (bytes_of s) = s"
  by (simp add: string_of_def bytes_of_def unat_of_nat take_bit_eq_mod map_idI)

lemma show_digit_inj: "a < 10 \<Longrightarrow> b < 10 \<Longrightarrow> show_digit a = show_digit b \<Longrightarrow> a = b"
proof -
  assume a: "a < 10" and b: "b < 10" and e: "show_digit a = show_digit b"
  from e have "of_char (char_of (48 + a)) = (of_char (char_of (48 + b)) :: nat)" by simp
  then have "(48 + a) mod 256 = (48 + b) mod 256" by (simp add: of_char_of)
  with a b show "a = b" by simp
qed

lemma show_digit_not_dash: "a < 10 \<Longrightarrow> show_digit a \<noteq> CHR ''-''"
proof
  assume a: "a < 10" and e: "show_digit a = CHR ''-''"
  from e have "of_char (char_of (48 + a)) = (of_char (CHR ''-'') :: nat)" by simp
  then have "(48 + a) mod 256 = 45" by (simp add: of_char_of)
  with a show False by simp
qed

lemma show_nat_not_Nil: "show_nat n \<noteq> []"
  by (subst show_nat.simps) simp

lemma show_nat_small: "k < 10 \<Longrightarrow> show_nat k = [show_digit k]"
  by (subst show_nat.simps) simp

lemma show_nat_big: "\<not> k < 10 \<Longrightarrow> show_nat k = show_nat (k div 10) @ [show_digit (k mod 10)]"
  by (subst show_nat.simps) simp

lemma show_nat_no_dash: "CHR ''-'' \<notin> set (show_nat n)"
proof (induction n rule: show_nat.induct)
  case (1 n)
  show ?case
  proof (cases "n < 10")
    case True
    then have "show_digit n \<noteq> CHR ''-''" by (rule show_digit_not_dash)
    with True show ?thesis by (auto simp add: show_nat_small simp del: show_digit.simps)
  next
    case False
    have "show_digit (n mod 10) \<noteq> CHR ''-''"
      by (rule show_digit_not_dash) simp
    moreover from False 1 have "CHR ''-'' \<notin> set (show_nat (n div 10))" by simp
    ultimately show ?thesis using False
      by (auto simp add: show_nat_big simp del: show_digit.simps)
  qed
qed

lemma show_nat_inj: "show_nat n = show_nat m \<Longrightarrow> n = m"
proof (induction n arbitrary: m rule: show_nat.induct)
  case (1 n)
  have sn: "\<And>k. k < 10 \<Longrightarrow> show_nat k = [show_digit k]"
    by (subst show_nat.simps) simp
  have sb: "\<And>k. \<not> k < 10 \<Longrightarrow> show_nat k = show_nat (k div 10) @ [show_digit (k mod 10)]"
    by (subst show_nat.simps) simp
  show ?case
  proof (cases "n < 10")
    case n: True
    show ?thesis
    proof (cases "m < 10")
      case True
      with n 1(2) show ?thesis
        using show_digit_inj [of n m] by (simp add: sn del: show_digit.simps)
    next
      case False
      with n 1(2) show ?thesis
        using show_nat_not_Nil [of "m div 10"] by (simp add: sn sb del: show_digit.simps)
    qed
  next
    case n: False
    show ?thesis
    proof (cases "m < 10")
      case True
      with n 1(2) show ?thesis
        using show_nat_not_Nil [of "n div 10"] by (simp add: sn sb del: show_digit.simps)
    next
      case False
      with n 1(2) have e: "show_nat (n div 10) = show_nat (m div 10)"
        "show_digit (n mod 10) = show_digit (m mod 10)"
        by (simp_all add: sb del: show_digit.simps)
      from 1(1) [OF n e(1)] have "n div 10 = m div 10" .
      moreover from e(2) have "n mod 10 = m mod 10"
        by (intro show_digit_inj) simp_all
      ultimately show ?thesis by (metis div_mult_mod_eq)
    qed
  qed
qed

lemma rekey_key_suffix:
  "takeWhile (\<lambda>c. c \<noteq> CHR ''-'') (rev (name @ ''-'' @ keyUnsealForID i)) = rev (show_nat i)"
proof -
  have "rev (name @ ''-'' @ keyUnsealForID i) = rev (show_nat i) @ CHR ''-'' # rev (name @ ''-vault-unseal'')"
    by (simp add: keyUnsealForID_def)
  moreover have "\<forall>c \<in> set (rev (show_nat i)). c \<noteq> CHR ''-''"
    using show_nat_no_dash [of i] by auto
  ultimately show ?thesis
    by (simp add: takeWhile_tail del: rev_append)
qed

lemma rekey_key_inj:
  "name @ ''-'' @ keyUnsealForID i = name' @ ''-'' @ keyUnsealForID j \<Longrightarrow> i = j"
proof -
  assume "name @ ''-'' @ keyUnsealForID i = name' @ ''-'' @ keyUnsealForID j"
  then have "takeWhile (\<lambda>c. c \<noteq> CHR ''-'') (rev (name @ ''-'' @ keyUnsealForID i))
    = takeWhile (\<lambda>c. c \<noteq> CHR ''-'') (rev (name' @ ''-'' @ keyUnsealForID j))" by simp
  then have "rev (show_nat i) = rev (show_nat j)" by (simp only: rekey_key_suffix)
  then show "i = j" by (simp add: show_nat_inj)
qed


section \<open>finishRekey\<close>


lemma rekeyKeyID_inj: "rekeyKeyID names i = rekeyKeyID names' j \<Longrightarrow> i = j"
  unfolding rekeyKeyID_def by (rule rekey_key_inj)

lemma keyPGPSet_bytes_of:
  "keyPGPSet dec key (bytes_of k) v =
     (case dec k of
        Inl err \<Rightarrow> (Some (errors_Wrap err ''error setting data''), v)
      | Inr pgpText \<Rightarrow> keyStore_Set key pgpText v)"
  by (simp add: keyPGPSet_def)

lemma keyStore_Set_cases:
  "keyStore_Set key val v =
     (case set_fault (keyStore v) key of
        Some e \<Rightarrow> (Some e, v\<lparr>trace := trace v @ [KVSet key val (Some e)]\<rparr>)
      | None \<Rightarrow> (None, v\<lparr>keyStore := (keyStore v)\<lparr>store := (store (keyStore v))(key \<mapsto> val)\<rparr>,
                         trace := trace v @ [KVSet key val None]\<rparr>))"
  by (simp add: keyStore_Set_def kv_Set_def split: option.splits)

lemma finishRekey_loop_panic:
  assumes "i \<le> length names"
  shows "fst (finishRekey_loop dec names ks i v) = Some PanicIndex \<longleftrightarrow>
     (i + length ks > length names
      \<and> (\<forall>j. j < length ks \<and> i + j < length names \<longrightarrow>
            (\<exists>b. dec (ks ! j) = Inr b) \<and> set_fault (keyStore v) (rekeyKeyID names (i + j)) = None))"
  using assms
proof (induction ks arbitrary: i v)
  case Nil
  then show ?case by simp
next
  case (Cons k ks)
  show ?case
  proof (cases "i < length names")
    case False
    with Cons.prems have "i = length names" by simp
    then show ?thesis by (simp add: index_def)
  next
    case True
    let ?key = "rekeyKeyID names i"
    have ix: "index names i = Inr (names ! i)" using True by (simp add: index_def)
    show ?thesis
    proof (cases "dec k")
      case (Inl err)
      then have "fst (finishRekey_loop dec names (k # ks) i v) \<noteq> Some PanicIndex"
        by (simp add: ix keyPGPSet_bytes_of Let_def)
      moreover have "\<not> (\<forall>j. j < length (k # ks) \<and> i + j < length names \<longrightarrow>
            (\<exists>b. dec ((k # ks) ! j) = Inr b) \<and> set_fault (keyStore v) (rekeyKeyID names (i + j)) = None)"
        using Inl True by (auto intro!: exI [of _ 0])
      ultimately show ?thesis by blast
    next
      case (Inr b)
      show ?thesis
      proof (cases "set_fault (keyStore v) ?key")
        case (Some e)
        then have "fst (finishRekey_loop dec names (k # ks) i v) \<noteq> Some PanicIndex"
          using Inr by (simp add: ix keyPGPSet_bytes_of Let_def keyStore_Set_cases rekeyKeyID_def)
        moreover have "\<not> (\<forall>j. j < length (k # ks) \<and> i + j < length names \<longrightarrow>
            (\<exists>b. dec ((k # ks) ! j) = Inr b) \<and> set_fault (keyStore v) (rekeyKeyID names (i + j)) = None)"
          using Some True by (auto intro!: exI [of _ 0])
        ultimately show ?thesis by blast
      next
        case None
        let ?v1 = "v\<lparr>keyStore := (keyStore v)\<lparr>store := (store (keyStore v))(?key \<mapsto> b)\<rparr>,
                         trace := trace v @ [KVSet ?key b None]\<rparr>"
        have step: "finishRekey_loop dec names (k # ks) i v = finishRekey_loop dec names ks (i + 1) ?v1"
          using Inr None by (simp add: ix keyPGPSet_bytes_of Let_def keyStore_Set_cases rekeyKeyID_def)
        have ih: "fst (finishRekey_loop dec names ks (i + 1) ?v1) = Some PanicIndex \<longleftrightarrow>
           (i + 1 + length ks > length names
            \<and> (\<forall>j. j < length ks \<and> i + 1 + j < length names \<longrightarrow>
              (\<exists>b. dec (ks ! j) = Inr b) \<and> set_fault (keyStore ?v1) (rekeyKeyID names (i + 1 + j)) = None))"
          using True by (intro Cons.IH) simp
        have "(\<forall>j. j < length (k # ks) \<and> i + j < length names \<longrightarrow>
            (\<exists>b. dec ((k # ks) ! j) = Inr b) \<and> set_fault (keyStore v) (rekeyKeyID names (i + j)) = None)
          \<longleftrightarrow> (\<forall>j. j < length ks \<and> i + 1 + j < length names \<longrightarrow>
              (\<exists>b. dec (ks ! j) = Inr b) \<and> set_fault (keyStore ?v1) (rekeyKeyID names (i + 1 + j)) = None)"
          (is "?L \<longleftrightarrow> ?R")
        proof
          assume l: ?L
          show ?R
          proof (intro allI impI)
            fix j assume "j < length ks \<and> i + 1 + j < length names"
            with l [rule_format, of "Suc j"] show "(\<exists>b. dec (ks ! j) = Inr b)
                \<and> set_fault (keyStore ?v1) (rekeyKeyID names (i + 1 + j)) = None"
              by simp
          qed
        next
          assume r: ?R
          show ?L
          proof (intro allI impI)
            fix j assume j: "j < length (k # ks) \<and> i + j < length names"
            show "(\<exists>b. dec ((k # ks) ! j) = Inr b) \<and> set_fault (keyStore v) (rekeyKeyID names (i + j)) = None"
            proof (cases j)
              case 0
              with Inr None show ?thesis by simp
            next
              case (Suc j')
              with j r [rule_format, of j'] show ?thesis by simp
            qed
          qed
        qed
        with step ih show ?thesis by simp
      qed
    qed
  qed
qed

text \<open>
  C10, as amended. \<open>finishRekey\<close> reads \<open>pgpKeyNames[i]\<close> at the position of each key
  of \<open>KeysB64\<close>, with no bounds check. With no more keys than names it never reads out
  of range. With more keys than names it reads out of range exactly when each of the
  first \<open>len(pgpKeyNames)\<close> keys decodes and is set without error: a key that fails to
  decode, or a set that fails, returns the wrapped error before the read out of range is
  reached.
\<close>

theorem C10_finishRekey_bounds_amended:
  "(length (KeysB64 resp) \<le> length pgpKeyNames \<longrightarrow>
      fst (finishRekey dec resp pgpKeyNames v) \<noteq> Some PanicIndex)
   \<and> (length (KeysB64 resp) > length pgpKeyNames \<longrightarrow>
      (fst (finishRekey dec resp pgpKeyNames v) = Some PanicIndex \<longleftrightarrow>
         (\<forall>j < length pgpKeyNames.
            (\<exists>b. dec (KeysB64 resp ! j) = Inr b)
            \<and> set_fault (keyStore v) (pgpKeyNames ! j @ ''-'' @ keyUnsealForID j) = None)))"
  using finishRekey_loop_panic [of 0 pgpKeyNames dec "KeysB64 resp" v]
  by (auto simp: finishRekey_def rekeyKeyID_def)


lemmas rekey_eval = Let_def finishRekey_def index_def keyPGPSet_def keyStore_Set_def kv_Set_def
  keyStore_Get_def kv_Get_def call_def keyUnsealForID_def dec_tab_def
  api_down_def vault_of_def kv_empty_def cfg11_def

text \<open>
  C10 as the claim words it fails: the answer carries two keys for one recipient, the
  first key is not base64, and \<open>finishRekey\<close> returns the decoding error; it does not
  read out of range.
\<close>

theorem C10_counterexample:
  "length (KeysB64 resp_badfirst) > length [''keybase:alice'']
   \<and> fst (finishRekey dec_tab resp_badfirst [''keybase:alice''] (vault_of kv_empty cfg11 ()))
     = Some (errors_Wrapf (errors_Wrap (External ''illegal base64 data'') ''error setting data'')
               (''error storing unseal key '%s'' @ sq) [''keybase:alice-vault-unseal-0''])
   \<and> fst (finishRekey dec_tab resp_badfirst [''keybase:alice''] (vault_of kv_empty cfg11 ()))
     \<noteq> Some PanicIndex"
  by (simp add: rekey_eval resp_badfirst_def)

theorem C10_finishRekey_bounds_amended_witness:
  "fst (finishRekey dec_tab resp_two [''keybase:alice'', ''keybase:bob''] (vault_of kv_empty cfg11 ()))
     \<noteq> Some PanicIndex
   \<and> fst (finishRekey dec_tab resp_two [''keybase:alice''] (vault_of kv_empty cfg11 ()))
     = Some PanicIndex
   \<and> fst (finishRekey dec_tab resp_badfirst [''keybase:alice''] (vault_of kv_empty cfg11 ()))
     \<noteq> Some PanicIndex"
proof (intro conjI)
  let ?v = "vault_of kv_empty cfg11 ()"
  have "length (KeysB64 resp_two) \<le> length [''keybase:alice'', ''keybase:bob'']"
    by (simp add: resp_two_def)
  with C10_finishRekey_bounds_amended [of resp_two "[''keybase:alice'', ''keybase:bob'']" dec_tab ?v]
  show "fst (finishRekey dec_tab resp_two [''keybase:alice'', ''keybase:bob''] ?v) \<noteq> Some PanicIndex"
    by blast
next
  let ?v = "vault_of kv_empty cfg11 ()"
  have 1: "length (KeysB64 resp_two) > length [''keybase:alice'']"
    by (simp add: resp_two_def)
  have 2: "\<forall>j < length [''keybase:alice''].
            (\<exists>b. dec_tab (KeysB64 resp_two ! j) = Inr b)
            \<and> set_fault (keyStore ?v) ([''keybase:alice''] ! j @ ''-'' @ keyUnsealForID j) = None"
    by (simp add: resp_two_def dec_tab_def vault_of_def kv_empty_def)
  from C10_finishRekey_bounds_amended [of resp_two "[''keybase:alice'']" dec_tab ?v] 1 2
  show "fst (finishRekey dec_tab resp_two [''keybase:alice''] ?v) = Some PanicIndex"
    by blast
next
  let ?v = "vault_of kv_empty cfg11 ()"
  have 1: "length (KeysB64 resp_badfirst) > length [''keybase:alice'']"
    by (simp add: resp_badfirst_def)
  have 2: "\<not> (\<forall>j < length [''keybase:alice''].
            (\<exists>b. dec_tab (KeysB64 resp_badfirst ! j) = Inr b)
            \<and> set_fault (keyStore ?v) ([''keybase:alice''] ! j @ ''-'' @ keyUnsealForID j) = None)"
    by (simp add: resp_badfirst_def dec_tab_def)
  from C10_finishRekey_bounds_amended [of resp_badfirst "[''keybase:alice'']" dec_tab ?v] 1 2
  show "fst (finishRekey dec_tab resp_badfirst [''keybase:alice''] ?v) \<noteq> Some PanicIndex"
    by blast
qed

lemma finishRekey_loop_ok:
  assumes "finishRekey_loop dec names ks i v = (None, v')"
  shows "(\<forall>j < length ks. i + j < length names
            \<and> (\<exists>b. dec (ks ! j) = Inr b
                  \<and> store (keyStore v') (rekeyKeyID names (i + j)) = Some b))
     \<and> (\<forall>key. (\<forall>j < length ks. key \<noteq> rekeyKeyID names (i + j)) \<longrightarrow>
            store (keyStore v') key = store (keyStore v) key)
     \<and> (\<exists>es. trace v' = trace v @ es \<and> kv_gets es = []
            \<and> map (\<lambda>(key, val, r). (key, r)) (kv_sets es)
                = map (\<lambda>j. (rekeyKeyID names (i + j), None)) [0 ..< length ks]
            \<and> (\<forall>e \<in> set es. \<exists>key val. e = KVSet key val None))"
  using assms
proof (induction ks arbitrary: i v)
  case Nil
  then show ?case by simp
next
  case (Cons k ks)
  let ?key = "rekeyKeyID names i"
  from Cons.prems have ix: "i < length names"
    by (auto simp: index_def split: if_splits)
  then have ixe: "index names i = Inr (names ! i)" by (simp add: index_def)
  from Cons.prems ixe obtain b where b: "dec k = Inr b"
    by (cases "dec k") (auto simp: keyPGPSet_bytes_of Let_def)
  from Cons.prems ixe b have nf: "set_fault (keyStore v) ?key = None"
    by (cases "set_fault (keyStore v) ?key")
       (auto simp: keyPGPSet_bytes_of Let_def keyStore_Set_cases rekeyKeyID_def)
  let ?v1 = "v\<lparr>keyStore := (keyStore v)\<lparr>store := (store (keyStore v))(?key \<mapsto> b)\<rparr>,
                   trace := trace v @ [KVSet ?key b None]\<rparr>"
  have step: "finishRekey_loop dec names ks (i + 1) ?v1 = (None, v')"
    using Cons.prems ixe b nf
    by (simp add: keyPGPSet_bytes_of Let_def keyStore_Set_cases rekeyKeyID_def)
  note ih = Cons.IH [OF step]
  from ih have ih1: "\<forall>j < length ks. i + 1 + j < length names
            \<and> (\<exists>b. dec (ks ! j) = Inr b
                  \<and> store (keyStore v') (rekeyKeyID names (i + 1 + j)) = Some b)" by blast
  from ih have ih2: "\<forall>key. (\<forall>j < length ks. key \<noteq> rekeyKeyID names (i + 1 + j)) \<longrightarrow>
            store (keyStore v') key = store (keyStore ?v1) key" by blast
  from ih obtain es where es: "trace v' = trace ?v1 @ es" "kv_gets es = []"
    "map (\<lambda>(key, val, r). (key, r)) (kv_sets es)
        = map (\<lambda>j. (rekeyKeyID names (i + 1 + j), None)) [0 ..< length ks]"
    "\<forall>e \<in> set es. \<exists>key val. e = KVSet key val None" by blast
  have "\<forall>j < length ks. ?key \<noteq> rekeyKeyID names (i + 1 + j)"
    using rekeyKeyID_inj [of names i names] by fastforce
  with ih2 have head: "store (keyStore v') ?key = Some b" by simp
  have 1: "\<forall>j < length (k # ks). i + j < length names
            \<and> (\<exists>b. dec ((k # ks) ! j) = Inr b
                  \<and> store (keyStore v') (rekeyKeyID names (i + j)) = Some b)"
  proof (intro allI impI)
    fix j assume j: "j < length (k # ks)"
    show "i + j < length names
            \<and> (\<exists>b. dec ((k # ks) ! j) = Inr b
                  \<and> store (keyStore v') (rekeyKeyID names (i + j)) = Some b)"
    proof (cases j)
      case 0
      with ix b head show ?thesis by simp
    next
      case (Suc j')
      with j ih1 [rule_format, of j'] show ?thesis by simp
    qed
  qed
  have 2: "\<forall>key. (\<forall>j < length (k # ks). key \<noteq> rekeyKeyID names (i + j)) \<longrightarrow>
            store (keyStore v') key = store (keyStore v) key"
  proof (intro allI impI)
    fix key assume a: "\<forall>j < length (k # ks). key \<noteq> rekeyKeyID names (i + j)"
    then have "key \<noteq> ?key" by fastforce
    moreover from a have "\<forall>j < length ks. key \<noteq> rekeyKeyID names (i + 1 + j)" by fastforce
    ultimately show "store (keyStore v') key = store (keyStore v) key"
      using ih2 by simp
  qed
  let ?es = "KVSet ?key b None # es"
  have m: "map (\<lambda>j. (rekeyKeyID names (i + j), None)) [0 ..< Suc (length ks)]
      = (?key, None) # map (\<lambda>j. (rekeyKeyID names (Suc (i + j)), None)) [0 ..< length ks]"
  proof -
    have "[0 ..< Suc (length ks)] = 0 # map Suc [0 ..< length ks]"
      by (simp add: upt_conv_Cons map_Suc_upt del: upt_Suc)
    then show ?thesis by (simp add: o_def del: upt_Suc)
  qed
  have 3: "trace v' = trace v @ ?es \<and> kv_gets ?es = []
            \<and> map (\<lambda>(key, val, r). (key, r)) (kv_sets ?es)
                = map (\<lambda>j. (rekeyKeyID names (i + j), None)) [0 ..< length (k # ks)]
            \<and> (\<forall>e \<in> set ?es. \<exists>key val. e = KVSet key val None)"
    using es by (simp add: m del: upt_Suc)
  from 1 2 3 show ?case by blast
qed


end
